theory Spec2Isabelle
  imports Main "HOL-Library.Multiset"
begin

section \<open>JavaScript values used by the lobby orchestration core\<close>

text \<open>
  A JavaScript number used as a worker identity: the integers, and \<open>NaN\<close> (what
  \<open>parseInt\<close> returns on a string without digits). Map and Set compare keys with
  SameValueZero, under which \<open>NaN\<close> equals itself, so structural equality on this type
  is the key equality of the source. Fractional numbers are left out: identities,
  counts and timestamps are integers.
\<close>

datatype jsnum = NaN | Num int

text \<open>A value received over IPC (\<open>raw: unknown\<close>): a JSON value with integer numbers.\<close>

datatype json =
    JNull
  | JBool bool
  | JNum int
  | JStr string
  | JArr "json list"
  | JObj "(string \<times> json) list"

subsection \<open>Map and Set, in insertion order\<close>

text \<open>
  A JavaScript \<open>Map\<close> is an association list in insertion order: \<open>set\<close> on a present
  key replaces the value where it stands, on an absent key it appends; \<open>delete\<close> removes
  the entry; \<open>values()\<close> iterates in insertion order.
\<close>

fun map_set :: "'k \<Rightarrow> 'v \<Rightarrow> ('k \<times> 'v) list \<Rightarrow> ('k \<times> 'v) list" where
  "map_set k v [] = [(k, v)]"
| "map_set k v (p # ps) = (if fst p = k then (k, v) # ps else p # map_set k v ps)"

definition map_delete :: "'k \<Rightarrow> ('k \<times> 'v) list \<Rightarrow> ('k \<times> 'v) list" where
  "map_delete k ps = filter (\<lambda>p. fst p \<noteq> k) ps"

definition map_get :: "('k \<times> 'v) list \<Rightarrow> 'k \<Rightarrow> 'v option" where
  "map_get ps k = map_of ps k"

definition map_values :: "('k \<times> 'v) list \<Rightarrow> 'v list" where
  "map_values ps = map snd ps"

text \<open>A JavaScript \<open>Set\<close>: a duplicate-free list in insertion order; \<open>size\<close> is its length.\<close>

definition set_add :: "'a \<Rightarrow> 'a list \<Rightarrow> 'a list" where
  "set_add x xs = (if x \<in> set xs then xs else xs @ [x])"

definition set_delete :: "'a \<Rightarrow> 'a list \<Rightarrow> 'a list" where
  "set_delete x xs = removeAll x xs"

section \<open>The message protocol (IPCBridgeSchema)\<close>

record PublicGameInfo =
  gameID :: string
  numClients :: int
  startsAt :: int
  gameConfig :: json

record PublicGames =
  serverTime :: int
  games :: "PublicGameInfo list"

datatype WorkerMessage =
    WorkerLobbyList "PublicGameInfo list"
  | WorkerReady int

datatype MasterMessage =
    MasterLobbiesBroadcast PublicGames
  | MasterCreateGame string json int

text \<open>
  The zod combinators the schemas are built from. A schema takes the value found under a
  key (\<open>None\<close> when the key is absent) and returns the parsed data, or \<open>None\<close> when
  validation fails.
\<close>

definition z_number :: "json option \<Rightarrow> int option" where
  "z_number v = (case v of Some (JNum n) \<Rightarrow> Some n | _ \<Rightarrow> None)"

definition z_string :: "json option \<Rightarrow> string option" where
  "z_string v = (case v of Some (JStr s) \<Rightarrow> Some s | _ \<Rightarrow> None)"

definition z_array :: "(json option \<Rightarrow> 'a option) \<Rightarrow> json option \<Rightarrow> 'a list option" where
  "z_array item v =
     (case v of Some (JArr xs) \<Rightarrow> those (map (\<lambda>x. item (Some x)) xs) | _ \<Rightarrow> None)"

definition GameConfigSchema :: "json option \<Rightarrow> json option" where
  \<comment> \<open>Modelled from the spec: \<open>GameConfigSchema\<close> of core/Schemas is not among the sources;
      the spec calls the game configuration opaque, so any value that is present passes.\<close>
  "GameConfigSchema v = v"

definition PublicGameInfoSchema :: "json option \<Rightarrow> PublicGameInfo option" where
  \<comment> \<open>Modelled from the spec: \<open>PublicGameInfoSchema\<close> of core/Schemas is not among the
      sources; the fields are those of the spec's LobbySummary, with \<open>startsAt\<close> a number
      as the worker's report and the master's comparator use it.\<close>
  "PublicGameInfoSchema v =
     (case v of
        Some (JObj fs) \<Rightarrow>
          (case (z_string (map_of fs ''gameID''), z_number (map_of fs ''numClients''),
                 z_number (map_of fs ''startsAt''), GameConfigSchema (map_of fs ''gameConfig'')) of
             (Some g, Some n, Some t, Some c) \<Rightarrow>
               Some \<lparr>gameID = g, numClients = n, startsAt = t, gameConfig = c\<rparr>
           | _ \<Rightarrow> None)
      | _ \<Rightarrow> None)"

definition PublicGamesSchema :: "json option \<Rightarrow> PublicGames option" where
  \<comment> \<open>Modelled from the spec: \<open>PublicGamesSchema\<close> of core/Schemas is not among the
      sources; the fields are those of the spec's GlobalLobbyView.\<close>
  "PublicGamesSchema v =
     (case v of
        Some (JObj fs) \<Rightarrow>
          (case (z_number (map_of fs ''serverTime''),
                 z_array PublicGameInfoSchema (map_of fs ''games'')) of
             (Some t, Some gs) \<Rightarrow> Some \<lparr>serverTime = t, games = gs\<rparr>
           | _ \<Rightarrow> None)
      | _ \<Rightarrow> None)"

text \<open>
  \<open>z.discriminatedUnion("type", [...])\<close>: the payload must be an object whose \<open>type\<close> is
  one of the literals; the object schema of that literal then validates the rest.
\<close>

definition WorkerMessageSchema :: "json \<Rightarrow> WorkerMessage option" where
  "WorkerMessageSchema raw =
     (case raw of
        JObj fs \<Rightarrow>
          (case map_of fs ''type'' of
             Some (JStr t) \<Rightarrow>
               if t = ''lobbyList'' then
                 map_option WorkerLobbyList (z_array PublicGameInfoSchema (map_of fs ''lobbies''))
               else if t = ''workerReady'' then
                 map_option WorkerReady (z_number (map_of fs ''workerId''))
               else None
           | _ \<Rightarrow> None)
      | _ \<Rightarrow> None)"

definition MasterMessageSchema :: "json \<Rightarrow> MasterMessage option" where
  "MasterMessageSchema raw =
     (case raw of
        JObj fs \<Rightarrow>
          (case map_of fs ''type'' of
             Some (JStr t) \<Rightarrow>
               if t = ''lobbiesBroadcast'' then
                 map_option MasterLobbiesBroadcast (PublicGamesSchema (map_of fs ''publicGames''))
               else if t = ''createGame'' then
                 (case (z_string (map_of fs ''gameID''), GameConfigSchema (map_of fs ''gameConfig''),
                        z_number (map_of fs ''startsAt'')) of
                    (Some g, Some c, Some t) \<Rightarrow> Some (MasterCreateGame g c t)
                  | _ \<Rightarrow> None)
               else None
           | _ \<Rightarrow> None)
      | _ \<Rightarrow> None)"

section \<open>MasterLobbyService\<close>

text \<open>A \<open>Worker\<close> object of the cluster module, by identity.\<close>

type_synonym handle = nat

record ServerConfig =
  numWorkers :: nat
  gameCreationRate :: int
  workerIndex :: "string \<Rightarrow> jsnum"

datatype master_log =
    InvalidIPCFromWorker json
  | WorkerIsReady jsnum nat nat
  | AllWorkersReady
  | WorkerNotFound jsnum
  | ScheduledPublicGame string jsnum
  | CrashedNoId
  | StartedWorker nat handle
  | WorkerDied string handle "int option" "string option"
  | RestartingWorker string
  | RestartedWorker string handle

datatype task = BroadcastLobbies | MaybeScheduleLobby

text \<open>
  The fields of the class, and the effects of its methods: the \<open>message\<close> listeners it has
  attached to worker handles (each closure keeps the \<open>workerId\<close> it was registered with), the
  messages handed to \<open>worker.send\<close>, the log, and the calls of \<open>startPolling\<close> with
  their intervals. The callback of \<open>worker.send\<close> only logs a failed delivery, later; it
  is left out.
\<close>

record master =
  workers :: "(jsnum \<times> handle) list"
  workerLobbies :: "(jsnum \<times> PublicGameInfo list) list"
  readyWorkers :: "jsnum list"
  started :: bool
  listeners :: "(handle \<times> jsnum) list"
  sent :: "(handle \<times> MasterMessage) list"
  logged :: "master_log list"
  polling :: "(task \<times> nat) list"

definition new_master :: master where
  "new_master = \<lparr>workers = [], workerLobbies = [], readyWorkers = [], started = False,
                  listeners = [], sent = [], logged = [], polling = []\<rparr>"

definition handleWorkerReady :: "ServerConfig \<Rightarrow> jsnum \<Rightarrow> master \<Rightarrow> master" where
  "handleWorkerReady c workerId s =
     (let s1 = s\<lparr>readyWorkers := set_add workerId (readyWorkers s)\<rparr>;
          s2 = s1\<lparr>logged := logged s1 @
                     [WorkerIsReady workerId (length (readyWorkers s1)) (numWorkers c)]\<rparr>
      in if length (readyWorkers s2) = numWorkers c \<and> \<not> started s2
         then s2\<lparr>started := True,
                 logged := logged s2 @ [AllWorkersReady],
                 polling := polling s2 @ [(BroadcastLobbies, 250), (MaybeScheduleLobby, 1000)]\<rparr>
         else s2)"

text \<open>The listener that \<open>registerWorker workerId\<close> attaches (lines 37 to 53).\<close>

definition onWorkerMessage :: "ServerConfig \<Rightarrow> jsnum \<Rightarrow> json \<Rightarrow> master \<Rightarrow> master" where
  "onWorkerMessage c workerId raw s =
     (case WorkerMessageSchema raw of
        None \<Rightarrow> s\<lparr>logged := logged s @ [InvalidIPCFromWorker raw]\<rparr>
      | Some (WorkerReady w) \<Rightarrow> handleWorkerReady c (Num w) s
      | Some (WorkerLobbyList lobbies) \<Rightarrow>
          s\<lparr>workerLobbies := map_set workerId lobbies (workerLobbies s)\<rparr>)"

definition registerWorker :: "jsnum \<Rightarrow> handle \<Rightarrow> master \<Rightarrow> master" where
  "registerWorker workerId worker s =
     s\<lparr>workers := map_set workerId worker (workers s),
       listeners := listeners s @ [(worker, workerId)]\<rparr>"

definition removeWorker :: "jsnum \<Rightarrow> master \<Rightarrow> master" where
  "removeWorker workerId s =
     s\<lparr>workers := map_delete workerId (workers s),
       workerLobbies := map_delete workerId (workerLobbies s),
       readyWorkers := set_delete workerId (readyWorkers s)\<rparr>"

text \<open>
  A message event on a worker handle runs every listener attached to that handle, in the
  order of attachment.
\<close>

definition deliver :: "ServerConfig \<Rightarrow> handle \<Rightarrow> json \<Rightarrow> master \<Rightarrow> master" where
  "deliver c worker raw s =
     foldl (\<lambda>s' l. if fst l = worker then onWorkerMessage c (snd l) raw s' else s')
           s (listeners s)"

text \<open>
  \<open>Array.prototype.sort\<close> is stable, and so is \<open>sort_key\<close>: lobbies with equal \<open>startsAt\<close>
  keep the order of the concatenation.
\<close>

definition getAllLobbies :: "master \<Rightarrow> PublicGameInfo list" where
  "getAllLobbies s = sort_key startsAt (concat (map_values (workerLobbies s)))"

definition broadcastLobbies :: "int \<Rightarrow> master \<Rightarrow> master" where
  "broadcastLobbies now s =
     (let msg = MasterLobbiesBroadcast \<lparr>serverTime = now, games = getAllLobbies s\<rparr>
      in s\<lparr>sent := sent s @ map (\<lambda>worker. (worker, msg)) (map_values (workers s))\<rparr>)"

text \<open>
  \<open>maybeScheduleLobby\<close> reads \<open>Date.now()\<close>, \<open>generateID()\<close> and the playlist: they are
  arguments here. The playlist's promise may reject (\<open>Inl\<close>); the method then rejects too
  and nothing is sent. The method suspends at \<open>await\<close>: the lobbies are read before it
  (\<open>scheduleBegin\<close>, lines 100 to 111), the worker is looked up after it
  (\<open>scheduleResume\<close>, lines 113 to 133), in the state of that moment.
\<close>

record plan =
  plan_gameID :: string
  plan_workerId :: jsnum
  plan_lastStart :: int

definition scheduleBegin :: "ServerConfig \<Rightarrow> int \<Rightarrow> string \<Rightarrow> master \<Rightarrow> plan option" where
  "scheduleBegin c now newID s =
     (let lobbies = getAllLobbies s
      in if length lobbies \<ge> 2 then None
         else Some \<lparr>plan_gameID = newID,
                    plan_workerId = workerIndex c newID,
                    plan_lastStart = foldl (\<lambda>mx pb. max mx (startsAt pb)) now lobbies\<rparr>)"

definition scheduleResume ::
  "ServerConfig \<Rightarrow> plan \<Rightarrow> string + json \<Rightarrow> master \<Rightarrow> string + master" where
  "scheduleResume c p playlist s =
     (case playlist of
        Inl e \<Rightarrow> Inl e
      | Inr cfg \<Rightarrow>
          (case map_get (workers s) (plan_workerId p) of
             None \<Rightarrow> Inr (s\<lparr>logged := logged s @ [WorkerNotFound (plan_workerId p)]\<rparr>)
           | Some worker \<Rightarrow>
               Inr (s\<lparr>sent := sent s @
                           [(worker, MasterCreateGame (plan_gameID p) cfg
                                       (plan_lastStart p + gameCreationRate c))],
                       logged := logged s @
                           [ScheduledPublicGame (plan_gameID p) (plan_workerId p)]\<rparr>)))"

text \<open>One scheduling tick during which no other handler runs at the \<open>await\<close>.\<close>

definition maybeScheduleLobby ::
  "ServerConfig \<Rightarrow> int \<Rightarrow> string \<Rightarrow> string + json \<Rightarrow> master \<Rightarrow> string + master" where
  "maybeScheduleLobby c now newID playlist s =
     (case scheduleBegin c now newID s of
        None \<Rightarrow> Inr s
      | Some p \<Rightarrow> scheduleResume c p playlist s)"

section \<open>WorkerLobbyService\<close>

datatype ReadyState = CONNECTING | OPEN | CLOSING | CLOSED

text \<open>What \<open>gameInfo()\<close> of a game returns, as far as the service reads it.\<close>

record GameInfo =
  gi_gameID :: string
  gi_clients :: "json list option"
  gi_startsAt :: "int option"
  gi_gameConfig :: json

type_synonym GameManager = "(string \<times> GameInfo) list"

definition gm_game :: "GameManager \<Rightarrow> string \<Rightarrow> GameInfo option" where
  \<comment> \<open>Modelled from the spec: the \<open>GameManager\<close> class is not among the sources; the spec
      gives \<open>game(id) -> Lobby|null\<close>. \<open>None\<close> is \<open>null\<close>.\<close>
  "gm_game gm gid = map_get gm gid"

definition gm_createGame ::
  "string \<Rightarrow> json \<Rightarrow> string option \<Rightarrow> int option \<Rightarrow> GameManager \<Rightarrow> GameManager" where
  \<comment> \<open>Modelled from the spec: the \<open>GameManager\<close> class is not among the sources; the spec
      gives \<open>createGame(id, config, startsAt?)\<close>, which makes the lobby \<open>id\<close> exist.\<close>
  "gm_createGame gid cfg creator start gm =
     map_set gid \<lparr>gi_gameID = gid, gi_clients = Some [], gi_startsAt = start,
                  gi_gameConfig = cfg\<rparr> gm"

definition gm_publicLobbies :: "(GameInfo \<Rightarrow> bool) \<Rightarrow> GameManager \<Rightarrow> GameInfo list" where
  \<comment> \<open>Modelled from the spec: the \<open>GameManager\<close> class is not among the sources; the spec
      gives \<open>listPublicLobbies() -> LobbySummary[]\<close>. Which lobbies count as public is
      the manager's own test, an argument here.\<close>
  "gm_publicLobbies isPublic gm = filter isPublic (map_values gm)"

datatype worker_log =
    InvalidIPCFromMaster json
  | GameAlreadyExists string
  | CreatingPublicGame string

text \<open>
  The state of the service in one worker process: the game manager, the set of viewer
  sockets with the \<open>readyState\<close> of each, and its effects: what was sent to each viewer
  (the \<open>PublicGames\<close> value that \<open>JSON.stringify\<close> serialises), what was handed to
  \<open>process.send\<close> (defined in a forked worker), and the log.
\<close>

record worker =
  gm :: GameManager
  lobbyClients :: "nat list"
  readyState :: "nat \<Rightarrow> ReadyState"
  toClients :: "(nat \<times> PublicGames) list"
  toMaster :: "json list"
  wlogged :: "worker_log list"

definition broadcastLobbiesToClients :: "PublicGames \<Rightarrow> worker \<Rightarrow> worker" where
  "broadcastLobbiesToClients publicGames w =
     (let message = publicGames;
          receivers = filter (\<lambda>client. readyState w client = OPEN) (lobbyClients w);
          clientsToRemove = filter (\<lambda>client. readyState w client \<noteq> OPEN) (lobbyClients w)
      in w\<lparr>toClients := toClients w @ map (\<lambda>client. (client, message)) receivers,
            lobbyClients := foldl (\<lambda>cs client. set_delete client cs) (lobbyClients w)
                              clientsToRemove\<rparr>)"

text \<open>
  The object of one lobby in the \<open>lobbyList\<close> message; a field whose value is
  \<open>undefined\<close> is not serialised.
\<close>

definition lobbyEntry :: "GameInfo \<Rightarrow> json" where
  "lobbyEntry gi =
     JObj ([(''gameID'', JStr (gi_gameID gi)),
            (''numClients'', JNum (case gi_clients gi of Some cs \<Rightarrow> int (length cs) | None \<Rightarrow> 0))]
           @ (case gi_startsAt gi of Some t \<Rightarrow> [(''startsAt'', JNum t)] | None \<Rightarrow> [])
           @ [(''gameConfig'', gi_gameConfig gi)])"

definition sendMyLobbiesToMaster :: "(GameInfo \<Rightarrow> bool) \<Rightarrow> worker \<Rightarrow> worker" where
  "sendMyLobbiesToMaster isPublic w =
     (let lobbies = map lobbyEntry (gm_publicLobbies isPublic (gm w))
      in w\<lparr>toMaster := toMaster w @
              [JObj [(''type'', JStr ''lobbyList''), (''lobbies'', JArr lobbies)]]\<rparr>)"

definition sendReady :: "int \<Rightarrow> worker \<Rightarrow> worker" where
  "sendReady workerId w =
     w\<lparr>toMaster := toMaster w @
         [JObj [(''type'', JStr ''workerReady''), (''workerId'', JNum workerId)]]\<rparr>"

text \<open>The listener of \<open>setupIPCListener\<close> (lines 29 to 58).\<close>

definition onMasterMessage :: "(GameInfo \<Rightarrow> bool) \<Rightarrow> json \<Rightarrow> worker \<Rightarrow> worker" where
  "onMasterMessage isPublic raw w =
     (case MasterMessageSchema raw of
        None \<Rightarrow> w\<lparr>wlogged := wlogged w @ [InvalidIPCFromMaster raw]\<rparr>
      | Some (MasterLobbiesBroadcast publicGames) \<Rightarrow>
          sendMyLobbiesToMaster isPublic (broadcastLobbiesToClients publicGames w)
      | Some (MasterCreateGame gid cfg start) \<Rightarrow>
          if gm_game (gm w) gid \<noteq> None
          then w\<lparr>wlogged := wlogged w @ [GameAlreadyExists gid]\<rparr>
          else w\<lparr>wlogged := wlogged w @ [CreatingPublicGame gid],
                 gm := gm_createGame gid cfg None (Some start) (gm w)\<rparr>)"

section \<open>The supervisor (Master.ts)\<close>

text \<open>
  An entry of the environment as the code hands it to \<open>cluster.fork\<close>: the loop index,
  a number, at startup, and the string it read back at a restart.
\<close>

datatype env_value = EnvNumber nat | EnvString string

record fork_env =
  WORKER_ID :: env_value
  ADMIN_TOKEN :: string
  INSTANCE_ID :: string

text \<open>
  The supervisor's state: the lobby service, and the calls of \<open>cluster.fork\<close> with the
  handle each returned. \<open>cluster.fork\<close> returns a new \<open>Worker\<close> object every time. The
  supervisor logs through the logger it gave the service. \<open>ADMIN_TOKEN\<close> and
  \<open>INSTANCE_ID\<close> are drawn once in \<open>startMaster\<close> and are arguments here; the HTTP
  server of the master is left out.
\<close>

record supervisor =
  service :: master
  forked :: "(handle \<times> fork_env) list"
  nextHandle :: handle

definition cluster_fork :: "fork_env \<Rightarrow> supervisor \<Rightarrow> handle \<times> supervisor" where
  "cluster_fork env sv =
     (nextHandle sv,
      sv\<lparr>forked := forked sv @ [(nextHandle sv, env)], nextHandle := Suc (nextHandle sv)\<rparr>)"

definition mlog :: "master_log \<Rightarrow> supervisor \<Rightarrow> supervisor" where
  "mlog entry sv = sv\<lparr>service := (service sv)\<lparr>logged := logged (service sv) @ [entry]\<rparr>\<rparr>"

text \<open>The body of the fork loop of \<open>startMaster\<close> (lines 94 to 103).\<close>

definition forkWorker :: "string \<Rightarrow> string \<Rightarrow> nat \<Rightarrow> supervisor \<Rightarrow> supervisor" where
  "forkWorker adminToken instanceId i sv =
     (let (worker, sv1) =
            cluster_fork \<lparr>WORKER_ID = EnvNumber i, ADMIN_TOKEN = adminToken,
                          INSTANCE_ID = instanceId\<rparr> sv;
          sv2 = sv1\<lparr>service := registerWorker (Num (int i)) worker (service sv1)\<rparr>
      in mlog (StartedWorker i worker) sv2)"

definition startMaster :: "ServerConfig \<Rightarrow> string \<Rightarrow> string \<Rightarrow> supervisor" where
  "startMaster c adminToken instanceId =
     fold (forkWorker adminToken instanceId) [0 ..< numWorkers c]
       \<lparr>service = new_master, forked = [], nextHandle = 0\<rparr>"

text \<open>
  The exit handler reads \<open>(worker as any).process?.env?.WORKER_ID\<close> from the worker that
  exited. The \<open>process\<close> of a cluster \<open>Worker\<close> is the runtime's \<open>ChildProcess\<close>: it
  carries the pid and the channel to the child and has no property \<open>env\<close>; the environment
  given to \<open>cluster.fork\<close> goes to the new process and is not kept on the handle. So
  \<open>process?.env\<close> is \<open>undefined\<close> on every handle, and with it the \<open>WORKER_ID\<close> read
  from it.
\<close>

definition processEnv :: "handle \<Rightarrow> (string \<Rightarrow> string option) option" where
  "processEnv worker = None"

definition envWorkerId :: "handle \<Rightarrow> string option" where
  "envWorkerId worker = (case processEnv worker of None \<Rightarrow> None | Some env \<Rightarrow> env ''WORKER_ID'')"

text \<open>
  The handler of the cluster's \<open>exit\<close> event (lines 106 to 132). \<open>parseInt\<close> is the
  built-in of the language, an argument here.
\<close>

definition onExit ::
  "(string \<Rightarrow> jsnum) \<Rightarrow> string \<Rightarrow> string \<Rightarrow> handle \<Rightarrow> int option \<Rightarrow> string option
     \<Rightarrow> supervisor \<Rightarrow> supervisor" where
  "onExit parseInt adminToken instanceId worker code signal sv =
     (case envWorkerId worker of
        None \<Rightarrow> mlog CrashedNoId sv
      | Some workerId \<Rightarrow>
          (let workerIdNum = parseInt workerId;
               sv1 = sv\<lparr>service := removeWorker workerIdNum (service sv)\<rparr>;
               sv2 = mlog (WorkerDied workerId worker code signal) sv1;
               sv3 = mlog (RestartingWorker workerId) sv2;
               (newWorker, sv4) =
                 cluster_fork \<lparr>WORKER_ID = EnvString workerId, ADMIN_TOKEN = adminToken,
                               INSTANCE_ID = instanceId\<rparr> sv3;
               sv5 = sv4\<lparr>service := registerWorker workerIdNum newWorker (service sv4)\<rparr>
           in mlog (RestartedWorker workerId newWorker) sv5))"

section \<open>Example states and messages\<close>

definition stale_state :: master where
  "stale_state =
     \<lparr>workers = [(Num 0, 0)],
      workerLobbies =
        [(Num 0, [\<lparr>gameID = ''g1'', numClients = 3, startsAt = 100, gameConfig = JNull\<rparr>])],
      readyWorkers = [Num 0], started = False, listeners = [(0, Num 0)], sent = [],
      logged = [], polling = []\<rparr>"

definition viewer_state :: worker where
  "viewer_state =
     \<lparr>gm = [(''g1'', \<lparr>gi_gameID = ''g1'', gi_clients = Some [JNull, JNull],
                     gi_startsAt = Some 100, gi_gameConfig = JNull\<rparr>)],
      lobbyClients = [1, 2],
      readyState = (\<lambda>client. if client = 1 then OPEN else CLOSING),
      toClients = [], toMaster = [], wlogged = []\<rparr>"

definition config2 :: ServerConfig where
  "config2 = \<lparr>numWorkers = 2, gameCreationRate = 60000,
              workerIndex = (\<lambda>gid. Num (int (length gid mod 2)))\<rparr>"

text \<open>A configuration without workers.\<close>

definition config0 :: ServerConfig where
  "config0 = \<lparr>numWorkers = 0, gameCreationRate = 60000, workerIndex = (\<lambda>gid. Num 0)\<rparr>"

definition garbage :: json where
  "garbage = JObj [(''type'', JStr ''lobbyList''), (''lobbies'', JNum 3)]"

definition createGame_g2 :: json where
  "createGame_g2 =
     JObj [(''type'', JStr ''createGame''), (''gameID'', JStr ''g2''),
           (''gameConfig'', JObj [(''gameMap'', JStr ''World'')]), (''startsAt'', JNum 500)]"

definition broadcast_g1 :: json where
  "broadcast_g1 =
     JObj [(''type'', JStr ''lobbiesBroadcast''),
           (''publicGames'',
            JObj [(''serverTime'', JNum 1000),
                  (''games'', JArr [JObj [(''gameID'', JStr ''g1''), (''numClients'', JNum 2),
                                          (''startsAt'', JNum 100), (''gameConfig'', JNull)]])])]"

definition view_g1 :: PublicGames where
  "view_g1 = \<lparr>serverTime = 1000,
              games = [\<lparr>gameID = ''g1'', numClients = 2, startsAt = 100, gameConfig = JNull\<rparr>]\<rparr>"

text \<open>The commands a scheduling tick handed to \<open>worker.send\<close>.\<close>

definition tickSent :: "master \<Rightarrow> string + master \<Rightarrow> (handle \<times> MasterMessage) list" where
  "tickSent s result =
     (case result of Inl e \<Rightarrow> [] | Inr s' \<Rightarrow> drop (length (sent s)) (sent s'))"

text \<open>Worker 1 is registered, worker 0 has been removed.\<close>

definition worker0_gone :: master where
  "worker0_gone =
     removeWorker (Num 0) (registerWorker (Num 1) 1 (registerWorker (Num 0) 0 new_master))"

section \<open>Runs of the coordinator\<close>

text \<open>
  What happens to the coordinator, one event at a time: the supervisor registers or removes
  a worker, a message event fires on a worker handle, a polling loop ticks. A scheduling
  tick that rejects is caught by the polling loop and leaves the state as it was.
\<close>

datatype event =
    Register jsnum handle
  | Remove jsnum
  | Message handle json
  | BroadcastTick int
  | ScheduleTick int string "string + json"

definition step :: "ServerConfig \<Rightarrow> event \<Rightarrow> master \<Rightarrow> master" where
  "step c e s =
     (case e of
        Register k h \<Rightarrow> registerWorker k h s
      | Remove k \<Rightarrow> removeWorker k s
      | Message h raw \<Rightarrow> deliver c h raw s
      | BroadcastTick now \<Rightarrow> broadcastLobbies now s
      | ScheduleTick now newID playlist \<Rightarrow>
          (case maybeScheduleLobby c now newID playlist s of Inl err \<Rightarrow> s | Inr s' \<Rightarrow> s'))"

definition run :: "ServerConfig \<Rightarrow> event list \<Rightarrow> master \<Rightarrow> master" where
  "run c evs s = foldl (\<lambda>s' e. step c e s') s evs"

subsection \<open>What the spec says of a run\<close>

text \<open>
  The functions below read a history, most recent event first, and know nothing of the
  coordinator's state. \<open>currentHandle\<close>: the handle an identity is registered with.
  \<open>latestReport\<close>: the most recent \<open>lobbyList\<close> that arrived on a handle registered under
  the identity, unless the identity was removed since. \<open>readySignals\<close>: the identities
  carried by the \<open>workerReady\<close> messages that arrived on a registered handle.
  \<open>readyNow\<close>: those of them that were not removed after their signal.
\<close>

fun currentHandle :: "event list \<Rightarrow> jsnum \<Rightarrow> handle option" where
  "currentHandle [] k = None"
| "currentHandle (Register k' h # past) k = (if k' = k then Some h else currentHandle past k)"
| "currentHandle (Remove k' # past) k = (if k' = k then None else currentHandle past k)"
| "currentHandle (e # past) k = currentHandle past k"

fun latestReport :: "event list \<Rightarrow> jsnum \<Rightarrow> PublicGameInfo list option" where
  "latestReport [] k = None"
| "latestReport (Remove k' # past) k = (if k' = k then None else latestReport past k)"
| "latestReport (Message h raw # past) k =
     (case WorkerMessageSchema raw of
        Some (WorkerLobbyList lobbies) \<Rightarrow>
          if Register k h \<in> set past then Some lobbies else latestReport past k
      | _ \<Rightarrow> latestReport past k)"
| "latestReport (e # past) k = latestReport past k"

definition handleOf :: "event \<Rightarrow> handle option" where
  "handleOf e = (case e of Register k h \<Rightarrow> Some h | _ \<Rightarrow> None)"

fun readySignals :: "event list \<Rightarrow> jsnum list" where
  "readySignals [] = []"
| "readySignals (Message h raw # past) =
     (case WorkerMessageSchema raw of
        Some (WorkerReady w) \<Rightarrow>
          if Some h \<in> set (map handleOf past) then Num w # readySignals past
          else readySignals past
      | _ \<Rightarrow> readySignals past)"
| "readySignals (e # past) = readySignals past"

fun readyNow :: "event list \<Rightarrow> jsnum list" where
  "readyNow [] = []"
| "readyNow (Remove k # past) = removeAll k (readyNow past)"
| "readyNow (Message h raw # past) =
     (case WorkerMessageSchema raw of
        Some (WorkerReady w) \<Rightarrow>
          if Some h \<in> set (map handleOf past) then Num w # readyNow past
          else readyNow past
      | _ \<Rightarrow> readyNow past)"
| "readyNow (e # past) = readyNow past"

definition identities :: "event list \<Rightarrow> jsnum list" where
  "identities evs =
     remdups (concat (map (\<lambda>e. case e of Register k h \<Rightarrow> [k] | _ \<Rightarrow> []) evs))"

text \<open>
  The lobbies the spec expects in the aggregate after the events \<open>evs\<close> (in order of
  occurrence): for each registered identity, its latest report.
\<close>

definition expectedGames :: "event list \<Rightarrow> PublicGameInfo list" where
  "expectedGames evs =
     concat (map (\<lambda>k. if currentHandle (rev evs) k \<noteq> None
                       then (case latestReport (rev evs) k of Some lobbies \<Rightarrow> lobbies | None \<Rightarrow> [])
                       else [])
                 (identities evs))"

text \<open>
  Messages come from workers that are registered: each message arrives on a handle that is
  the current handle of every identity it was registered under. A worker that has exited
  and been removed sends nothing more.
\<close>

fun fromRegistered :: "event list \<Rightarrow> bool" where
  "fromRegistered [] = True"
| "fromRegistered (Message h raw # past) =
     (list_all (\<lambda>e. case e of Register k h' \<Rightarrow> h' = h \<longrightarrow> currentHandle past k = Some h
                             | _ \<Rightarrow> True) past
      \<and> fromRegistered past)"
| "fromRegistered (e # past) = fromRegistered past"

definition readyMessage :: "int \<Rightarrow> json" where
  "readyMessage w = JObj [(''type'', JStr ''workerReady''), (''workerId'', JNum w)]"

definition lobbyJson :: "string \<Rightarrow> int \<Rightarrow> json" where
  "lobbyJson gid start =
     JObj [(''gameID'', JStr gid), (''numClients'', JNum 0), (''startsAt'', JNum start),
           (''gameConfig'', JNull)]"

definition lobbyListMessage :: "json list \<Rightarrow> json" where
  "lobbyListMessage lobbies = JObj [(''type'', JStr ''lobbyList''), (''lobbies'', JArr lobbies)]"

definition lobby :: "string \<Rightarrow> int \<Rightarrow> PublicGameInfo" where
  "lobby gid start = \<lparr>gameID = gid, numClients = 0, startsAt = start, gameConfig = JNull\<rparr>"

text \<open>
  Two workers start and report; worker 1 exits and is restarted under a new handle before
  it reports again.
\<close>

definition restart_trace :: "event list" where
  "restart_trace =
     [Register (Num 0) 0, Register (Num 1) 1,
      Message 0 (readyMessage 0), Message 1 (readyMessage 1), Message 1 (readyMessage 1),
      Message 1 (lobbyListMessage [lobbyJson ''b1'' 200]),
      Message 0 (lobbyListMessage [lobbyJson ''a2'' 300, lobbyJson ''a1'' 100]),
      Remove (Num 1), Register (Num 1) 2,
      Message 2 (readyMessage 1)]"

text \<open>The loop of \<open>deliver\<close> over a list of listeners.\<close>

definition deliverTo :: "ServerConfig \<Rightarrow> handle \<Rightarrow> json \<Rightarrow> (handle \<times> jsnum) list \<Rightarrow> master \<Rightarrow> master" where
  "deliverTo c h raw ls s =
     foldl (\<lambda>s' l. if fst l = h then onWorkerMessage c (snd l) raw s' else s') s ls"

text \<open>Worker 0 reports once more after it has been removed.\<close>

definition late_report_trace :: "event list" where
  "late_report_trace =
     [Register (Num 0) 0,
      Message 0 (lobbyListMessage [lobbyJson ''a1'' 100]),
      Remove (Num 0),
      Message 0 (lobbyListMessage [lobbyJson ''a2'' 300])]"

text \<open>
  What holds of the ready set, the start flag and the polling loops after a run in which
  the ready signals \<open>S\<close> arrived; \<open>b\<close> says that no worker was removed during the run.
\<close>

definition gate_inv :: "ServerConfig \<Rightarrow> bool \<Rightarrow> master \<Rightarrow> jsnum set \<Rightarrow> bool" where
  "gate_inv c b s S =
     (distinct (readyWorkers s) \<and> set (readyWorkers s) \<subseteq> S \<and> finite S
      \<and> polling s = (if started s then [(BroadcastLobbies, 250), (MaybeScheduleLobby, 1000)]
                      else [])
      \<and> (started s \<longrightarrow> numWorkers c \<le> card S)
      \<and> (b \<longrightarrow> set (readyWorkers s) = S
              \<and> (started s \<longleftrightarrow> 0 < numWorkers c \<and> numWorkers c \<le> length (readyWorkers s))))"

text \<open>
  What holds of the ready set and the start flag after a run at whose end the identities
  \<open>R\<close> have signalled ready and not been removed since.
\<close>

definition live_inv :: "ServerConfig \<Rightarrow> master \<Rightarrow> jsnum set \<Rightarrow> bool" where
  "live_inv c s R =
     (set (readyWorkers s) = R
      \<and> (started s \<or> length (readyWorkers s) < numWorkers c \<or> numWorkers c = 0))"

text \<open>Two workers start; worker 1 sends its ready signal twice.\<close>

definition startup_trace :: "event list" where
  "startup_trace =
     [Register (Num 0) 0, Register (Num 1) 1,
      Message 0 (readyMessage 0), Message 1 (readyMessage 1), Message 1 (readyMessage 1)]"

text \<open>
  Worker 0 signals ready, exits and is restarted under a new handle; then worker 1 signals
  ready.
\<close>

definition crash_trace :: "event list" where
  "crash_trace =
     [Register (Num 0) 0, Register (Num 1) 1,
      Message 0 (readyMessage 0),
      Remove (Num 0), Register (Num 0) 2,
      Message 1 (readyMessage 1)]"

text \<open>Worker 0 sends a second ready signal, with an identity that no worker was given.\<close>

definition foreign_id_trace :: "event list" where
  "foreign_id_trace =
     [Register (Num 0) 0, Register (Num 1) 1,
      Message 0 (readyMessage 0), Message 0 (readyMessage 7)]"

text \<open>Two workers have started and reported.\<close>

definition two_workers :: master where
  "two_workers =
     \<lparr>workers = [(Num 0, 0), (Num 1, 1)],
      workerLobbies = [(Num 1, [lobby ''b1'' 200]), (Num 0, [lobby ''a2'' 300, lobby ''a1'' 100])],
      readyWorkers = [Num 0, Num 1], started = True,
      listeners = [(0, Num 0), (1, Num 1)], sent = [], logged = [],
      polling = [(BroadcastLobbies, 250), (MaybeScheduleLobby, 1000)]\<rparr>"

section \<open>Facts about Map and Set\<close>

lemma map_of_map_set: "map_of (map_set k v ps) = (map_of ps)(k \<mapsto> v)"
  by (induction ps) (auto simp: fun_eq_iff)

lemma map_of_map_delete: "map_of (map_delete k ps) = (map_of ps)(k := None)"
  by (induction ps) (auto simp: map_delete_def fun_eq_iff)

lemma keys_map_set:
  "map fst (map_set k v ps) = (if k \<in> fst ` set ps then map fst ps else map fst ps @ [k])"
  by (induction ps) auto

lemma map_get_map_set: "map_get (map_set k v ps) = (map_get ps)(k \<mapsto> v)"
  by (simp add: map_get_def fun_eq_iff map_of_map_set)

lemma map_get_map_delete: "map_get (map_delete k ps) = (map_get ps)(k := None)"
  by (simp add: map_get_def fun_eq_iff map_of_map_delete)

lemma map_set_absent: "map_of ps k = None \<Longrightarrow> map_set k v ps = ps @ [(k, v)]"
  by (induction ps) (auto split: if_splits)

lemma count_key_distinct:
  "distinct (map fst ps) \<Longrightarrow> map_of ps k = Some v \<Longrightarrow> length (filter (\<lambda>p. fst p = k) ps) = 1"
  by (induction ps) (auto split: if_splits simp: filter_empty_conv rev_image_eqI)

lemma count_key_absent: "map_of ps k = None \<Longrightarrow> filter (\<lambda>p. fst p = k) ps = []"
  by (induction ps) (auto split: if_splits)

section \<open>Facts about the message handlers\<close>

lemma deliver_invalid_aux:
  "WorkerMessageSchema raw = None \<Longrightarrow>
   foldl (\<lambda>s' l. if fst l = h then onWorkerMessage c (snd l) raw s' else s') s ls =
     s\<lparr>logged := logged s @
          replicate (length (filter (\<lambda>l. fst l = h) ls)) (InvalidIPCFromWorker raw)\<rparr>"
proof (induction ls arbitrary: s)
  case Nil
  then show ?case by simp
next
  case (Cons l ls)
  then show ?case
    by (simp add: onWorkerMessage_def replicate_app_Cons_same)
qed

lemma foldl_removeAll: "foldl (\<lambda>cs x. removeAll x cs) ys zs = filter (\<lambda>y. y \<notin> set zs) ys"
proof (induction zs arbitrary: ys)
  case Nil
  then show ?case by simp
next
  case (Cons z zs)
  have "filter (\<lambda>y. y \<notin> set zs) (removeAll z ys) = filter (\<lambda>y. y \<notin> set (z # zs)) ys"
    by (induction ys) auto
  with Cons show ?case by simp
qed

lemma drop_closed_clients:
  "foldl (\<lambda>cs x. set_delete x cs) xs (filter (\<lambda>x. \<not> P x) xs) = filter P xs"
  unfolding set_delete_def foldl_removeAll
  by (rule filter_cong) auto

lemma broadcast_g1_parses: "MasterMessageSchema broadcast_g1 = Some (MasterLobbiesBroadcast view_g1)"
  by (simp add: broadcast_g1_def view_g1_def MasterMessageSchema_def PublicGamesSchema_def
      PublicGameInfoSchema_def z_array_def z_number_def z_string_def GameConfigSchema_def)

lemma lastStart_Max:
  "foldl (\<lambda>mx pb. max mx (startsAt pb)) now ls = Max (insert now (startsAt ` set ls))"
proof (induction ls arbitrary: now)
  case Nil
  then show ?case by simp
next
  case (Cons x xs)
  have "Max (insert (max now (startsAt x)) (startsAt ` set xs))
        = Max (insert now (insert (startsAt x) (startsAt ` set xs)))"
    by (cases "xs = []") (simp_all add: max.assoc)
  with Cons show ?case by simp
qed

section \<open>Facts about the supervisor\<close>

lemma map_of_initial_workers:
  "map_of (map (\<lambda>i. (Num (int i), i)) [0 ..< n]) (Num (int n)) = None"
  by (simp add: map_of_eq_None_iff image_iff)

lemma fork_loop:
  "fold (forkWorker tok inst) [0 ..< n] \<lparr>service = new_master, forked = [], nextHandle = 0\<rparr>
     = \<lparr>service = new_master
           \<lparr>workers := map (\<lambda>i. (Num (int i), i)) [0 ..< n],
            listeners := map (\<lambda>i. (i, Num (int i))) [0 ..< n],
            logged := map (\<lambda>i. StartedWorker i i) [0 ..< n]\<rparr>,
        forked = map (\<lambda>i. (i, \<lparr>WORKER_ID = EnvNumber i, ADMIN_TOKEN = tok,
                                 INSTANCE_ID = inst\<rparr>)) [0 ..< n],
        nextHandle = n\<rparr>"
proof (induction n)
  case 0
  then show ?case by (simp add: new_master_def)
next
  case (Suc n)
  then show ?case
    by (simp add: forkWorker_def cluster_fork_def mlog_def registerWorker_def new_master_def
        map_set_absent map_of_initial_workers)
qed

section \<open>Facts about runs\<close>

lemma run_snoc: "run c (evs @ [e]) s = step c e (run c evs s)"
  by (simp add: run_def)

lemma run_Nil: "run c [] s = s"
  by (simp add: run_def)

lemma handleWorkerReady_frame:
  "workers (handleWorkerReady c w s) = workers s"
  "listeners (handleWorkerReady c w s) = listeners s"
  "workerLobbies (handleWorkerReady c w s) = workerLobbies s"
  "sent (handleWorkerReady c w s) = sent s"
  by (simp_all add: handleWorkerReady_def Let_def)

lemma onWorkerMessage_frame:
  "workers (onWorkerMessage c k raw s) = workers s"
  "listeners (onWorkerMessage c k raw s) = listeners s"
  "sent (onWorkerMessage c k raw s) = sent s"
  by (simp_all add: onWorkerMessage_def handleWorkerReady_frame
      split: option.splits WorkerMessage.splits)

lemma deliverTo_simps:
  "deliverTo c h raw [] s = s"
  "deliverTo c h raw (l # ls) s =
     deliverTo c h raw ls (if fst l = h then onWorkerMessage c (snd l) raw s else s)"
  by (simp_all add: deliverTo_def)

lemma deliver_deliverTo: "deliver c h raw s = deliverTo c h raw (listeners s) s"
  by (simp add: deliver_def deliverTo_def)

lemma deliverTo_frame:
  "workers (deliverTo c h raw ls s) = workers s
   \<and> listeners (deliverTo c h raw ls s) = listeners s
   \<and> sent (deliverTo c h raw ls s) = sent s"
  by (induction ls arbitrary: s) (simp_all add: deliverTo_simps onWorkerMessage_frame)

lemma deliverTo_lobbies:
  "map_get (workerLobbies (deliverTo c h raw ls s)) k =
     (case WorkerMessageSchema raw of
        Some (WorkerLobbyList lobbies) \<Rightarrow>
          if (h, k) \<in> set ls then Some lobbies else map_get (workerLobbies s) k
      | _ \<Rightarrow> map_get (workerLobbies s) k)"
proof (induction ls arbitrary: s)
  case Nil
  then show ?case
    by (simp add: deliverTo_simps split: option.splits WorkerMessage.splits)
next
  case (Cons l ls)
  obtain h' k' where l: "l = (h', k')" by (cases l)
  show ?case
    unfolding deliverTo_simps Cons.IH
    by (auto simp: l onWorkerMessage_def handleWorkerReady_frame map_get_map_set
        split: option.splits WorkerMessage.splits)
qed

lemma deliverTo_distinct:
  "distinct (map fst (workerLobbies s)) \<Longrightarrow>
   distinct (map fst (workerLobbies (deliverTo c h raw ls s)))"
proof (induction ls arbitrary: s)
  case Nil
  then show ?case by (simp add: deliverTo_simps)
next
  case (Cons l ls)
  have "distinct (map fst (workerLobbies (onWorkerMessage c (snd l) raw s)))"
    using Cons.prems
    by (simp add: onWorkerMessage_def handleWorkerReady_frame keys_map_set
        split: option.splits WorkerMessage.splits)
  with Cons show ?case
    by (simp add: deliverTo_simps)
qed

lemma maybeScheduleLobby_frame:
  "maybeScheduleLobby c now newID playlist s = Inr s' \<Longrightarrow>
   workers s' = workers s \<and> listeners s' = listeners s \<and> workerLobbies s' = workerLobbies s
   \<and> readyWorkers s' = readyWorkers s \<and> started s' = started s \<and> polling s' = polling s"
  by (auto simp: maybeScheduleLobby_def scheduleBegin_def scheduleResume_def Let_def
      split: option.splits sum.splits if_splits)

lemma workers_step:
  "workers (step c e s) =
     (case e of Register k h \<Rightarrow> map_set k h (workers s)
              | Remove k \<Rightarrow> map_delete k (workers s)
              | _ \<Rightarrow> workers s)"
  by (auto simp: step_def registerWorker_def removeWorker_def deliver_deliverTo deliverTo_frame
      broadcastLobbies_def Let_def dest: maybeScheduleLobby_frame split: event.splits sum.splits)

lemma listeners_step:
  "listeners (step c e s) =
     (case e of Register k h \<Rightarrow> listeners s @ [(h, k)] | _ \<Rightarrow> listeners s)"
  by (auto simp: step_def registerWorker_def removeWorker_def deliver_deliverTo deliverTo_frame
      broadcastLobbies_def Let_def dest: maybeScheduleLobby_frame split: event.splits sum.splits)

lemma workerLobbies_step:
  "map_get (workerLobbies (step c e s)) k =
     (case e of
        Remove k' \<Rightarrow> if k' = k then None else map_get (workerLobbies s) k
      | Message h raw \<Rightarrow>
          (case WorkerMessageSchema raw of
             Some (WorkerLobbyList lobbies) \<Rightarrow>
               if (h, k) \<in> set (listeners s) then Some lobbies else map_get (workerLobbies s) k
           | _ \<Rightarrow> map_get (workerLobbies s) k)
      | _ \<Rightarrow> map_get (workerLobbies s) k)"
  by (auto simp: step_def registerWorker_def removeWorker_def deliver_deliverTo deliverTo_lobbies
      broadcastLobbies_def Let_def map_get_map_delete
      dest: maybeScheduleLobby_frame split: event.splits sum.splits)

lemma distinct_map_delete: "distinct (map fst ps) \<Longrightarrow> distinct (map fst (map_delete k ps))"
  by (simp add: map_delete_def distinct_map_filter)

lemma workerLobbies_distinct_step:
  "distinct (map fst (workerLobbies s)) \<Longrightarrow> distinct (map fst (workerLobbies (step c e s)))"
  by (auto simp: step_def registerWorker_def removeWorker_def deliver_deliverTo deliverTo_distinct
      broadcastLobbies_def Let_def distinct_map_delete
      dest: maybeScheduleLobby_frame split: event.splits sum.splits)

lemma run_listeners:
  "set (listeners (run c evs new_master)) = {(h, k). Register k h \<in> set evs}"
proof (induction evs rule: rev_induct)
  case Nil
  then show ?case by (simp add: run_Nil new_master_def)
next
  case (snoc e evs)
  then show ?case
    by (cases e) (auto simp: run_snoc listeners_step)
qed

lemma run_workers: "map_get (workers (run c evs new_master)) k = currentHandle (rev evs) k"
proof (induction evs rule: rev_induct)
  case Nil
  then show ?case by (simp add: run_Nil new_master_def map_get_def)
next
  case (snoc e evs)
  then show ?case
    by (cases e) (simp_all add: run_snoc workers_step map_get_map_set map_get_map_delete)
qed

lemma run_workerLobbies:
  "map_get (workerLobbies (run c evs new_master)) k = latestReport (rev evs) k"
proof (induction evs rule: rev_induct)
  case Nil
  then show ?case by (simp add: run_Nil new_master_def map_get_def)
next
  case (snoc e evs)
  then show ?case
    by (cases e)
       (simp_all add: run_snoc workerLobbies_step run_listeners
          split: option.splits WorkerMessage.splits)
qed

lemma run_workerLobbies_distinct: "distinct (map fst (workerLobbies (run c evs new_master)))"
proof (induction evs rule: rev_induct)
  case Nil
  then show ?case by (simp add: run_Nil new_master_def)
next
  case (snoc e evs)
  then show ?case by (simp add: run_snoc workerLobbies_distinct_step)
qed

lemma run_keeps_handle:
  "(\<forall>h. Register k h \<notin> set evs) \<Longrightarrow> Remove k \<notin> set evs \<Longrightarrow>
   map_get (workers (run c evs s)) k = map_get (workers s) k"
proof (induction evs rule: rev_induct)
  case Nil
  then show ?case by (simp add: run_Nil)
next
  case (snoc e evs)
  then show ?case
    by (cases e) (auto simp: run_snoc workers_step map_get_map_set map_get_map_delete)
qed

lemma run_reports_on:
  assumes noreg: "\<forall>h. Register k h \<notin> set evs"
    and init: "map_get (workerLobbies s) k = None"
  shows "(\<forall>h. (h, k) \<in> set (listeners (run c evs s)) \<longrightarrow> (h, k) \<in> set (listeners s))
    \<and> (\<forall>lobbies. map_get (workerLobbies (run c evs s)) k = Some lobbies \<longrightarrow>
          (\<exists>h raw. Message h raw \<in> set evs \<and> (h, k) \<in> set (listeners s)
                   \<and> WorkerMessageSchema raw = Some (WorkerLobbyList lobbies)))"
  using noreg
proof (induction evs rule: rev_induct)
  case Nil
  then show ?case by (simp add: run_Nil init)
next
  case (snoc e evs)
  let ?s = "run c evs s"
  from snoc have ls: "\<forall>h. (h, k) \<in> set (listeners ?s) \<longrightarrow> (h, k) \<in> set (listeners s)"
    and ih: "\<forall>lobbies. map_get (workerLobbies ?s) k = Some lobbies \<longrightarrow>
          (\<exists>h raw. Message h raw \<in> set evs \<and> (h, k) \<in> set (listeners s)
                   \<and> WorkerMessageSchema raw = Some (WorkerLobbyList lobbies))"
    by auto
  show ?case
  proof (cases e)
    case (Register k' h')
    with snoc.prems have "k' \<noteq> k" by auto
    with ls ih Register show ?thesis
      by (auto simp: run_snoc workerLobbies_step listeners_step)
  next
    case (Remove k')
    with ls ih show ?thesis
      by (auto simp: run_snoc workerLobbies_step listeners_step split: if_splits)
  next
    case (Message h raw)
    have l: "listeners (run c (evs @ [e]) s) = listeners ?s"
      by (simp add: Message run_snoc listeners_step)
    have "\<exists>h raw. Message h raw \<in> set (evs @ [e]) \<and> (h, k) \<in> set (listeners s)
                   \<and> WorkerMessageSchema raw = Some (WorkerLobbyList lobbies)"
      if "map_get (workerLobbies (run c (evs @ [e]) s)) k = Some lobbies" for lobbies
    proof (cases "WorkerMessageSchema raw = Some (WorkerLobbyList lobbies)
                  \<and> (h, k) \<in> set (listeners ?s)")
      case True
      with ls Message show ?thesis by auto
    next
      case False
      with that Message have "map_get (workerLobbies ?s) k = Some lobbies"
        by (auto simp: run_snoc workerLobbies_step split: option.splits WorkerMessage.splits if_splits)
      with ih show ?thesis by auto
    qed
    with ls l show ?thesis by simp
  next
    case (BroadcastTick now)
    with ls ih show ?thesis
      by (auto simp: run_snoc workerLobbies_step listeners_step)
  next
    case (ScheduleTick now newID playlist)
    with ls ih show ?thesis
      by (auto simp: run_snoc workerLobbies_step listeners_step)
  qed
qed

lemma currentHandle_Register: "currentHandle past k = Some h \<Longrightarrow> Register k h \<in> set past"
  by (induction past k rule: currentHandle.induct) (auto split: if_splits)

lemma set_identities: "set (identities evs) = {k. \<exists>h. Register k h \<in> set evs}"
  by (auto simp: identities_def split: event.splits)

lemma report_needs_handle:
  "fromRegistered past \<Longrightarrow> latestReport past k \<noteq> None \<Longrightarrow> currentHandle past k \<noteq> None"
proof (induction past)
  case Nil
  then show ?case by simp
next
  case (Cons e past)
  show ?case
  proof (cases e)
    case (Message h raw)
    show ?thesis
    proof (cases "\<exists>lobbies. WorkerMessageSchema raw = Some (WorkerLobbyList lobbies)
                    \<and> Register k h \<in> set past")
      case True
      with Cons.prems(1) Message have "currentHandle past k = Some h"
        by (auto simp: list_all_iff)
      with Message show ?thesis by simp
    next
      case False
      with Cons.prems Message have "latestReport past k \<noteq> None"
        by (auto split: option.splits WorkerMessage.splits if_splits)
      with Cons Message show ?thesis by simp
    qed
  qed (use Cons in \<open>auto split: if_splits\<close>)
qed

lemma sum_values_by_key:
  "distinct (map fst ps) \<Longrightarrow> distinct ks \<Longrightarrow> fst ` set ps \<subseteq> set ks \<Longrightarrow>
   (\<Sum>k\<leftarrow>ks. mset (case map_of ps k of None \<Rightarrow> [] | Some v \<Rightarrow> v)) = (\<Sum>p\<leftarrow>ps. mset (snd p))"
proof (induction ps arbitrary: ks)
  case Nil
  then show ?case by (induction ks) simp_all
next
  case (Cons p ps)
  obtain k0 v0 where p: "p = (k0, v0)" by (cases p)
  let ?g = "\<lambda>k. mset (case map_of (p # ps) k of None \<Rightarrow> [] | Some v \<Rightarrow> v)"
  let ?g' = "\<lambda>k. mset (case map_of ps k of None \<Rightarrow> [] | Some v \<Rightarrow> v)"
  from Cons.prems p have k0: "k0 \<in> set ks" and notin: "k0 \<notin> fst ` set ps"
    by auto
  have rest: "map ?g (remove1 k0 ks) = map ?g' (remove1 k0 ks)"
    using Cons.prems(2) by (auto simp: p)
  have "distinct (remove1 k0 ks)" "fst ` set ps \<subseteq> set (remove1 k0 ks)"
    using Cons.prems notin by (auto simp: p)
  with Cons have ih: "sum_list (map ?g' (remove1 k0 ks)) = (\<Sum>q\<leftarrow>ps. mset (snd q))"
    by simp
  have g0: "?g k0 = mset v0"
    by (simp add: p)
  have "sum_list (map ?g ks) = ?g k0 + sum_list (map ?g (remove1 k0 ks))"
    using k0 by (rule sum_list_map_remove1)
  then have "sum_list (map ?g ks) = mset v0 + (\<Sum>q\<leftarrow>ps. mset (snd q))"
    by (simp only: g0 rest ih)
  moreover have "(\<Sum>q\<leftarrow>p # ps. mset (snd q)) = mset v0 + (\<Sum>q\<leftarrow>ps. mset (snd q))"
    by (simp add: p)
  ultimately show ?case
    by simp
qed

section \<open>Facts about the example runs\<close>

lemma parse_readyMessage: "WorkerMessageSchema (readyMessage w) = Some (WorkerReady w)"
  by (simp add: WorkerMessageSchema_def readyMessage_def z_number_def)

lemma parse_lobbyJson: "PublicGameInfoSchema (Some (lobbyJson gid start)) = Some (lobby gid start)"
  by (simp add: PublicGameInfoSchema_def lobbyJson_def lobby_def z_string_def z_number_def
      GameConfigSchema_def)

lemma parse_lobbyList1:
  "WorkerMessageSchema (lobbyListMessage [lobbyJson g t]) = Some (WorkerLobbyList [lobby g t])"
  by (simp add: WorkerMessageSchema_def lobbyListMessage_def z_array_def parse_lobbyJson)

lemma parse_lobbyList2:
  "WorkerMessageSchema (lobbyListMessage [lobbyJson g t, lobbyJson g' t'])
     = Some (WorkerLobbyList [lobby g t, lobby g' t'])"
  by (simp add: WorkerMessageSchema_def lobbyListMessage_def z_array_def parse_lobbyJson)

lemma parse_lobbyList0: "WorkerMessageSchema (lobbyListMessage []) = Some (WorkerLobbyList [])"
  by (simp add: WorkerMessageSchema_def lobbyListMessage_def z_array_def)

lemmas parse_examples = parse_readyMessage parse_lobbyList1 parse_lobbyList2

lemma late_report_run:
  "run config2 late_report_trace new_master =
     \<lparr>workers = [], workerLobbies = [(Num 0, [lobby ''a2'' 300])], readyWorkers = [],
      started = False, listeners = [(0, Num 0)], sent = [], logged = [], polling = []\<rparr>"
  by (simp add: late_report_trace_def run_def step_def registerWorker_def removeWorker_def
      deliver_def onWorkerMessage_def parse_examples new_master_def map_delete_def set_delete_def)

lemma restart_run:
  "run config2 restart_trace new_master =
     \<lparr>workers = [(Num 0, 0), (Num 1, 2)],
      workerLobbies = [(Num 0, [lobby ''a2'' 300, lobby ''a1'' 100])],
      readyWorkers = [Num 0, Num 1], started = True,
      listeners = [(0, Num 0), (1, Num 1), (2, Num 1)], sent = [],
      logged = [WorkerIsReady (Num 0) 1 2, WorkerIsReady (Num 1) 2 2, AllWorkersReady,
                WorkerIsReady (Num 1) 2 2, WorkerIsReady (Num 1) 2 2],
      polling = [(BroadcastLobbies, 250), (MaybeScheduleLobby, 1000)]\<rparr>"
  by (simp add: restart_trace_def run_def step_def registerWorker_def removeWorker_def
      deliver_def onWorkerMessage_def handleWorkerReady_def parse_examples new_master_def
      map_delete_def set_delete_def set_add_def config2_def Let_def)

lemma restart_fromRegistered: "fromRegistered (rev restart_trace)"
  by (simp add: restart_trace_def)

lemma restart_expected: "expectedGames restart_trace = [lobby ''a2'' 300, lobby ''a1'' 100]"
  by (simp add: restart_trace_def expectedGames_def identities_def parse_examples)

lemma startup_run:
  "run config2 startup_trace new_master =
     \<lparr>workers = [(Num 0, 0), (Num 1, 1)], workerLobbies = [],
      readyWorkers = [Num 0, Num 1], started = True,
      listeners = [(0, Num 0), (1, Num 1)], sent = [],
      logged = [WorkerIsReady (Num 0) 1 2, WorkerIsReady (Num 1) 2 2, AllWorkersReady,
                WorkerIsReady (Num 1) 2 2],
      polling = [(BroadcastLobbies, 250), (MaybeScheduleLobby, 1000)]\<rparr>"
  by (simp add: startup_trace_def run_def step_def registerWorker_def
      deliver_def onWorkerMessage_def handleWorkerReady_def parse_examples new_master_def
      set_add_def config2_def Let_def)

lemma startup_signals: "readySignals (rev startup_trace) = [Num 1, Num 1, Num 0]"
  by (simp add: startup_trace_def parse_examples handleOf_def)

lemma reregistered_run:
  "run config2 [Message 0 (lobbyListMessage []), Message 2 (lobbyListMessage [lobbyJson ''n1'' 500])]
     (registerWorker (Num 1) 2 (removeWorker (Num 1) two_workers)) =
     \<lparr>workers = [(Num 0, 0), (Num 1, 2)],
      workerLobbies = [(Num 0, []), (Num 1, [lobby ''n1'' 500])],
      readyWorkers = [Num 0], started = True,
      listeners = [(0, Num 0), (1, Num 1), (2, Num 1)], sent = [], logged = [],
      polling = [(BroadcastLobbies, 250), (MaybeScheduleLobby, 1000)]\<rparr>"
  by (simp add: run_def step_def registerWorker_def removeWorker_def two_workers_def
      deliver_def onWorkerMessage_def parse_examples parse_lobbyList0 map_delete_def set_delete_def)

lemma late_old_handle_run:
  "run config2 [Message 1 (lobbyListMessage [lobbyJson ''b1'' 200])]
     (registerWorker (Num 1) 2 (removeWorker (Num 1) two_workers)) =
     \<lparr>workers = [(Num 0, 0), (Num 1, 2)],
      workerLobbies = [(Num 0, [lobby ''a2'' 300, lobby ''a1'' 100]), (Num 1, [lobby ''b1'' 200])],
      readyWorkers = [Num 0], started = True,
      listeners = [(0, Num 0), (1, Num 1), (2, Num 1)], sent = [], logged = [],
      polling = [(BroadcastLobbies, 250), (MaybeScheduleLobby, 1000)]\<rparr>"
  by (simp add: run_def step_def registerWorker_def removeWorker_def two_workers_def
      deliver_def onWorkerMessage_def parse_examples map_delete_def set_delete_def)

lemma crash_run:
  "run config2 crash_trace new_master =
     \<lparr>workers = [(Num 1, 1), (Num 0, 2)], workerLobbies = [], readyWorkers = [Num 1],
      started = False, listeners = [(0, Num 0), (1, Num 1), (2, Num 0)], sent = [],
      logged = [WorkerIsReady (Num 0) 1 2, WorkerIsReady (Num 1) 1 2], polling = []\<rparr>"
  by (simp add: crash_trace_def run_def step_def registerWorker_def removeWorker_def
      deliver_def onWorkerMessage_def handleWorkerReady_def parse_examples new_master_def
      map_delete_def set_delete_def set_add_def config2_def Let_def)

lemma foreign_id_run:
  "run config2 foreign_id_trace new_master =
     \<lparr>workers = [(Num 0, 0), (Num 1, 1)], workerLobbies = [], readyWorkers = [Num 0, Num 7],
      started = True, listeners = [(0, Num 0), (1, Num 1)], sent = [],
      logged = [WorkerIsReady (Num 0) 1 2, WorkerIsReady (Num 7) 2 2, AllWorkersReady],
      polling = [(BroadcastLobbies, 250), (MaybeScheduleLobby, 1000)]\<rparr>"
  by (simp add: foreign_id_trace_def run_def step_def registerWorker_def
      deliver_def onWorkerMessage_def handleWorkerReady_def parse_examples new_master_def
      set_add_def config2_def Let_def)

section \<open>Facts about the readiness gate\<close>

lemma gate_handleWorkerReady:
  assumes "gate_inv c b s S"
  shows "gate_inv c b (handleWorkerReady c w s) (insert w S)"
proof -
  let ?r = "set_add w (readyWorkers s)"
  let ?N = "numWorkers c"
  from assms have d: "distinct (readyWorkers s)" and sub: "set (readyWorkers s) \<subseteq> S"
    and fin: "finite S"
    and pol: "polling s = (if started s then [(BroadcastLobbies, 250), (MaybeScheduleLobby, 1000)]
                      else [])"
    and st: "started s \<longrightarrow> ?N \<le> card S"
    and live: "b \<longrightarrow> set (readyWorkers s) = S
              \<and> (started s \<longleftrightarrow> 0 < ?N \<and> ?N \<le> length (readyWorkers s))"
    by (simp_all add: gate_inv_def)
  have d': "distinct ?r" and set': "set ?r = insert w (set (readyWorkers s))"
    using d by (auto simp: set_add_def)
  have len: "length ?r = card (insert w (set (readyWorkers s)))"
    using d' set' by (metis distinct_card)
  have le: "length ?r \<le> card (insert w S)"
    unfolding len using sub fin by (intro card_mono) auto
  have mono: "card S \<le> card (insert w S)"
    using fin by (intro card_mono) auto
  have grow: "length (readyWorkers s) \<le> length ?r" "length ?r \<le> Suc (length (readyWorkers s))"
    by (simp_all add: set_add_def)
  have pos: "0 < length ?r"
    by (auto simp: set_add_def)
  show ?thesis
  proof (cases "length ?r = ?N \<and> \<not> started s")
    case True
    then have eq: "handleWorkerReady c w s =
        s\<lparr>readyWorkers := ?r,
          started := True,
          logged := logged s @ [WorkerIsReady w (length ?r) ?N, AllWorkersReady],
          polling := polling s @ [(BroadcastLobbies, 250), (MaybeScheduleLobby, 1000)]\<rparr>"
      by (simp add: handleWorkerReady_def Let_def)
    from True pol have "polling s = []" by simp
    moreover from True le have "?N \<le> card (insert w S)" by simp
    moreover from True pos have "0 < ?N" by simp
    ultimately show ?thesis
      unfolding eq gate_inv_def using d' set' sub fin live True
      by auto
  next
    case False
    then have eq: "handleWorkerReady c w s =
        s\<lparr>readyWorkers := ?r, logged := logged s @ [WorkerIsReady w (length ?r) ?N]\<rparr>"
      by (simp add: handleWorkerReady_def Let_def)
    have "started s \<longrightarrow> ?N \<le> card (insert w S)"
      using st mono by auto
    moreover have "b \<longrightarrow> (started s \<longleftrightarrow> 0 < ?N \<and> ?N \<le> length ?r)"
      using live False grow by auto
    ultimately show ?thesis
      unfolding eq gate_inv_def using d' set' sub fin live pol
      by auto
  qed
qed

lemma gate_frame:
  "readyWorkers s' = readyWorkers s \<Longrightarrow> started s' = started s \<Longrightarrow> polling s' = polling s
   \<Longrightarrow> gate_inv c b s' S = gate_inv c b s S"
  by (simp add: gate_inv_def)

lemma gate_other_fields:
  "gate_inv c b (s\<lparr>workerLobbies := wl\<rparr>) S = gate_inv c b s S"
  "gate_inv c b (s\<lparr>logged := lg\<rparr>) S = gate_inv c b s S"
  by (simp_all add: gate_inv_def)

lemma gate_onWorkerMessage:
  assumes "gate_inv c b s S"
  shows "gate_inv c b (onWorkerMessage c k raw s)
           (case WorkerMessageSchema raw of Some (WorkerReady w) \<Rightarrow> insert (Num w) S | _ \<Rightarrow> S)"
proof (cases "WorkerMessageSchema raw")
  case None
  with assms show ?thesis
    by (simp add: onWorkerMessage_def gate_other_fields)
next
  case (Some msg)
  show ?thesis
  proof (cases msg)
    case (WorkerLobbyList lobbies)
    with assms Some show ?thesis
      by (simp add: onWorkerMessage_def gate_other_fields)
  next
    case (WorkerReady w)
    with gate_handleWorkerReady [OF assms, of "Num w"] Some show ?thesis
      by (simp add: onWorkerMessage_def)
  qed
qed

lemma gate_deliverTo:
  "gate_inv c b s S \<Longrightarrow>
   gate_inv c b (deliverTo c h raw ls s)
     (case WorkerMessageSchema raw of
        Some (WorkerReady w) \<Rightarrow> if h \<in> fst ` set ls then insert (Num w) S else S
      | _ \<Rightarrow> S)"
proof (induction ls arbitrary: s S)
  case Nil
  then show ?case
    by (simp add: deliverTo_simps split: option.splits WorkerMessage.splits)
next
  case (Cons l ls)
  show ?case
  proof (cases "fst l = h")
    case True
    from gate_onWorkerMessage [OF Cons.prems, of "snd l" raw]
    have "gate_inv c b (deliverTo c h raw ls (onWorkerMessage c (snd l) raw s))
       (case WorkerMessageSchema raw of
          Some (WorkerReady w) \<Rightarrow>
            if h \<in> fst ` set ls
            then insert (Num w) (case WorkerMessageSchema raw of
                                   Some (WorkerReady w) \<Rightarrow> insert (Num w) S | _ \<Rightarrow> S)
            else (case WorkerMessageSchema raw of
                    Some (WorkerReady w) \<Rightarrow> insert (Num w) S | _ \<Rightarrow> S)
        | _ \<Rightarrow> (case WorkerMessageSchema raw of
                    Some (WorkerReady w) \<Rightarrow> insert (Num w) S | _ \<Rightarrow> S))"
      by (rule Cons.IH)
    with True show ?thesis
      by (auto simp: deliverTo_simps split: option.splits WorkerMessage.splits if_splits)
  next
    case False
    with Cons.IH [OF Cons.prems] show ?thesis
      by (auto simp: deliverTo_simps split: option.splits WorkerMessage.splits if_splits)
  qed
qed

lemma gate_removeWorker: "gate_inv c b s S \<Longrightarrow> gate_inv c False (removeWorker k s) S"
  by (auto simp: gate_inv_def removeWorker_def set_delete_def distinct_removeAll)

lemma handles_listeners:
  "(Some h \<in> handleOf ` set evs) = (h \<in> fst ` set (listeners (run c evs new_master)))"
proof
  assume "Some h \<in> handleOf ` set evs"
  then obtain e where e: "e \<in> set evs" and he: "handleOf e = Some h" by auto
  from he obtain k where "e = Register k h"
    by (cases e) (simp_all add: handleOf_def)
  with e have "Register k h \<in> set evs" by simp
  then have "(h, k) \<in> set (listeners (run c evs new_master))"
    by (simp add: run_listeners)
  then show "h \<in> fst ` set (listeners (run c evs new_master))"
    by force
next
  assume "h \<in> fst ` set (listeners (run c evs new_master))"
  then obtain k where "(h, k) \<in> set (listeners (run c evs new_master))" by auto
  then have "Register k h \<in> set evs"
    by (simp add: run_listeners)
  then have "handleOf (Register k h) \<in> handleOf ` set evs"
    by (rule imageI)
  then show "Some h \<in> handleOf ` set evs"
    by (simp add: handleOf_def)
qed

lemma gate_run:
  "gate_inv c (\<forall>k. Remove k \<notin> set evs) (run c evs new_master) (set (readySignals (rev evs)))"
proof (induction evs rule: rev_induct)
  case Nil
  then show ?case by (auto simp: run_Nil new_master_def gate_inv_def)
next
  case (snoc e evs)
  let ?s = "run c evs new_master"
  let ?S = "set (readySignals (rev evs))"
  let ?b = "\<forall>k. Remove k \<notin> set evs"
  show ?case
  proof (cases e)
    case (Register k h)
    have "gate_inv c ?b (registerWorker k h ?s) ?S = gate_inv c ?b ?s ?S"
      by (rule gate_frame) (simp_all add: registerWorker_def)
    with snoc Register show ?thesis
      by (simp add: run_snoc step_def)
  next
    case (Remove k)
    then have bF: "(\<forall>k. Remove k \<notin> set (evs @ [e])) = False"
      by auto
    have S: "readySignals (rev (evs @ [e])) = readySignals (rev evs)"
      using Remove by simp
    show ?thesis
      unfolding bF S run_snoc using gate_removeWorker [OF snoc, of k]
      by (simp add: step_def Remove)
  next
    case (Message h raw)
    have S: "set (readySignals (rev (evs @ [e])))
        = (case WorkerMessageSchema raw of
             Some (WorkerReady w) \<Rightarrow> if h \<in> fst ` set (listeners ?s) then insert (Num w) ?S else ?S
           | _ \<Rightarrow> ?S)"
      by (simp add: Message handles_listeners [of h evs c] split: option.splits WorkerMessage.splits)
    have "gate_inv c ?b (deliverTo c h raw (listeners ?s) ?s) (set (readySignals (rev (evs @ [e]))))"
      unfolding S using snoc by (rule gate_deliverTo)
    then show ?thesis
      by (simp add: Message run_snoc step_def deliver_deliverTo)
  next
    case (BroadcastTick now)
    have "gate_inv c ?b (broadcastLobbies now ?s) ?S = gate_inv c ?b ?s ?S"
      by (rule gate_frame) (simp_all add: broadcastLobbies_def)
    with snoc BroadcastTick show ?thesis
      by (simp add: run_snoc step_def)
  next
    case (ScheduleTick now newID playlist)
    show ?thesis
    proof (cases "maybeScheduleLobby c now newID playlist ?s")
      case (Inl err)
      with snoc ScheduleTick show ?thesis
        by (simp add: run_snoc step_def)
    next
      case (Inr s')
      have "gate_inv c ?b s' ?S = gate_inv c ?b ?s ?S"
        using maybeScheduleLobby_frame [OF Inr] by (intro gate_frame) simp_all
      with snoc ScheduleTick Inr show ?thesis
        by (simp add: run_snoc step_def)
    qed
  qed
qed

lemma live_handleWorkerReady:
  assumes "live_inv c s R"
  shows "live_inv c (handleWorkerReady c w s) (insert w R)"
proof -
  let ?r = "set_add w (readyWorkers s)"
  have set': "set ?r = insert w (set (readyWorkers s))"
    by (auto simp: set_add_def)
  have grow: "length ?r \<le> Suc (length (readyWorkers s))" "0 < length ?r"
    by (auto simp: set_add_def)
  show ?thesis
  proof (cases "length ?r = numWorkers c \<and> \<not> started s")
    case True
    then show ?thesis
      using assms set' by (simp add: live_inv_def handleWorkerReady_def Let_def)
  next
    case False
    then have eq: "handleWorkerReady c w s =
        s\<lparr>readyWorkers := ?r,
          logged := logged s @ [WorkerIsReady w (length ?r) (numWorkers c)]\<rparr>"
      by (simp add: handleWorkerReady_def Let_def)
    from assms False grow have "started s \<or> length ?r < numWorkers c \<or> numWorkers c = 0"
      by (auto simp: live_inv_def)
    with assms set' show ?thesis
      unfolding eq by (simp add: live_inv_def)
  qed
qed

lemma live_other_fields:
  "live_inv c (s\<lparr>workerLobbies := wl\<rparr>) R = live_inv c s R"
  "live_inv c (s\<lparr>logged := lg\<rparr>) R = live_inv c s R"
  "live_inv c (s\<lparr>sent := sn\<rparr>) R = live_inv c s R"
  by (simp_all add: live_inv_def)

lemma live_frame:
  "readyWorkers s' = readyWorkers s \<Longrightarrow> started s' = started s \<Longrightarrow>
   live_inv c s' R = live_inv c s R"
  by (simp add: live_inv_def)

lemma live_onWorkerMessage:
  assumes "live_inv c s R"
  shows "live_inv c (onWorkerMessage c k raw s)
           (case WorkerMessageSchema raw of Some (WorkerReady w) \<Rightarrow> insert (Num w) R | _ \<Rightarrow> R)"
proof (cases "WorkerMessageSchema raw")
  case None
  with assms show ?thesis
    by (simp add: onWorkerMessage_def live_other_fields)
next
  case (Some msg)
  show ?thesis
  proof (cases msg)
    case (WorkerLobbyList lobbies)
    with assms Some show ?thesis
      by (simp add: onWorkerMessage_def live_other_fields)
  next
    case (WorkerReady w)
    with live_handleWorkerReady [OF assms, of "Num w"] Some show ?thesis
      by (simp add: onWorkerMessage_def)
  qed
qed

lemma live_deliverTo:
  "live_inv c s R \<Longrightarrow>
   live_inv c (deliverTo c h raw ls s)
     (case WorkerMessageSchema raw of
        Some (WorkerReady w) \<Rightarrow> if h \<in> fst ` set ls then insert (Num w) R else R
      | _ \<Rightarrow> R)"
proof (induction ls arbitrary: s R)
  case Nil
  then show ?case
    by (simp add: deliverTo_simps split: option.splits WorkerMessage.splits)
next
  case (Cons l ls)
  show ?case
  proof (cases "fst l = h")
    case True
    let ?R1 = "case WorkerMessageSchema raw of
                 Some (WorkerReady w) \<Rightarrow> insert (Num w) R | _ \<Rightarrow> R"
    from live_onWorkerMessage [OF Cons.prems, of "snd l" raw]
    have "live_inv c (deliverTo c h raw ls (onWorkerMessage c (snd l) raw s))
       (case WorkerMessageSchema raw of
          Some (WorkerReady w) \<Rightarrow> if h \<in> fst ` set ls then insert (Num w) ?R1 else ?R1
        | _ \<Rightarrow> ?R1)"
      by (rule Cons.IH)
    with True show ?thesis
      by (auto simp: deliverTo_simps split: option.splits WorkerMessage.splits if_splits)
  next
    case False
    with Cons.IH [OF Cons.prems] show ?thesis
      by (auto simp: deliverTo_simps split: option.splits WorkerMessage.splits if_splits)
  qed
qed

lemma live_removeWorker: "live_inv c s R \<Longrightarrow> live_inv c (removeWorker k s) (R - {k})"
proof -
  assume a: "live_inv c s R"
  have "length (removeAll k (readyWorkers s)) < numWorkers c"
    if "length (readyWorkers s) < numWorkers c"
    using that by (rule le_less_trans [OF length_removeAll_less_eq])
  with a show ?thesis
    by (auto simp: live_inv_def removeWorker_def set_delete_def)
qed

lemma live_run: "live_inv c (run c evs new_master) (set (readyNow (rev evs)))"
proof (induction evs rule: rev_induct)
  case Nil
  then show ?case by (auto simp: run_Nil new_master_def live_inv_def)
next
  case (snoc e evs)
  let ?s = "run c evs new_master"
  let ?R = "set (readyNow (rev evs))"
  show ?case
  proof (cases e)
    case (Register k h)
    have "live_inv c (registerWorker k h ?s) ?R = live_inv c ?s ?R"
      by (rule live_frame) (simp_all add: registerWorker_def)
    with snoc Register show ?thesis
      by (simp add: run_snoc step_def)
  next
    case (Remove k)
    have "set (readyNow (rev (evs @ [e]))) = ?R - {k}"
      using Remove by simp
    with live_removeWorker [OF snoc, of k] Remove show ?thesis
      by (simp add: run_snoc step_def)
  next
    case (Message h raw)
    have R: "set (readyNow (rev (evs @ [e])))
        = (case WorkerMessageSchema raw of
             Some (WorkerReady w) \<Rightarrow> if h \<in> fst ` set (listeners ?s) then insert (Num w) ?R else ?R
           | _ \<Rightarrow> ?R)"
      by (simp add: Message handles_listeners [of h evs c] split: option.splits WorkerMessage.splits)
    have "live_inv c (deliverTo c h raw (listeners ?s) ?s) (set (readyNow (rev (evs @ [e]))))"
      unfolding R using snoc by (rule live_deliverTo)
    then show ?thesis
      by (simp add: Message run_snoc step_def deliver_deliverTo)
  next
    case (BroadcastTick now)
    have "live_inv c (broadcastLobbies now ?s) ?R = live_inv c ?s ?R"
      by (rule live_frame) (simp_all add: broadcastLobbies_def)
    with snoc BroadcastTick show ?thesis
      by (simp add: run_snoc step_def)
  next
    case (ScheduleTick now newID playlist)
    show ?thesis
    proof (cases "maybeScheduleLobby c now newID playlist ?s")
      case (Inl err)
      with snoc ScheduleTick show ?thesis
        by (simp add: run_snoc step_def)
    next
      case (Inr s')
      have "live_inv c s' ?R = live_inv c ?s ?R"
        using maybeScheduleLobby_frame [OF Inr] by (intro live_frame) simp_all
      with snoc ScheduleTick Inr show ?thesis
        by (simp add: run_snoc step_def)
    qed
  qed
qed

section \<open>Registration\<close>

text \<open>
  Claim C10. Calling \<open>registerWorker\<close> for an identity that is already registered replaces
  the stored handle and nothing else: the identity keeps its place in the map, its reported
  lobby list and its membership of the ready set stay as they were, and so does the
  aggregate. Only when \<open>removeWorker\<close> runs first are the list and the membership gone.
\<close>

theorem registerWorker_replaces_only_handle:
  assumes "map_get (workers s) k = Some old"
  shows "map_get (workers (registerWorker k h s)) = (map_get (workers s))(k \<mapsto> h)
       \<and> map fst (workers (registerWorker k h s)) = map fst (workers s)
       \<and> workerLobbies (registerWorker k h s) = workerLobbies s
       \<and> readyWorkers (registerWorker k h s) = readyWorkers s
       \<and> started (registerWorker k h s) = started s
       \<and> getAllLobbies (registerWorker k h s) = getAllLobbies s
       \<and> map_get (workerLobbies (registerWorker k h (removeWorker k s))) k = None
       \<and> k \<notin> set (readyWorkers (registerWorker k h (removeWorker k s)))"
proof -
  from assms have "k \<in> fst ` set (workers s)"
    by (metis map_get_def map_of_eq_None_iff option.distinct(1))
  then show ?thesis
    by (simp add: registerWorker_def removeWorker_def getAllLobbies_def map_get_map_set
        keys_map_set map_get_map_delete set_delete_def)
qed

theorem registerWorker_replaces_only_handle_witness:
  "map_get (workers stale_state) (Num 0) = Some 0
   \<and> map_get (workers (registerWorker (Num 0) 7 stale_state)) (Num 0) = Some 7
   \<and> map_get (workerLobbies (registerWorker (Num 0) 7 stale_state)) (Num 0)
       = Some [\<lparr>gameID = ''g1'', numClients = 3, startsAt = 100, gameConfig = JNull\<rparr>]
   \<and> readyWorkers (registerWorker (Num 0) 7 stale_state) = [Num 0]
   \<and> getAllLobbies (registerWorker (Num 0) 7 stale_state)
       = [\<lparr>gameID = ''g1'', numClients = 3, startsAt = 100, gameConfig = JNull\<rparr>]
   \<and> map_get (workerLobbies (registerWorker (Num 0) 7 (removeWorker (Num 0) stale_state)))
       (Num 0) = None"
proof -
  have h: "map_get (workers stale_state) (Num 0) = Some 0"
    by (simp add: stale_state_def map_get_def)
  from registerWorker_replaces_only_handle [OF h, of 7] h show ?thesis
    by (simp add: stale_state_def map_get_def getAllLobbies_def map_values_def)
qed

section \<open>Malformed messages\<close>

text \<open>
  Claim C5. A payload that fails schema validation is logged and dropped by both message
  handlers: the master's listener (and a message event as a whole, which runs every
  listener on the handle) returns the state with only log entries added, so \<open>workers\<close>,
  \<open>workerLobbies\<close>, \<open>readyWorkers\<close> and the start flag are unchanged and nothing is
  sent; the worker's listener returns its state with only a log entry added, so the games
  and the viewer set are unchanged. Neither handler has a failing branch.
\<close>

theorem invalid_payload_dropped:
  "(WorkerMessageSchema raw = None \<longrightarrow>
      onWorkerMessage c k raw s = s\<lparr>logged := logged s @ [InvalidIPCFromWorker raw]\<rparr>
    \<and> deliver c h raw s =
        s\<lparr>logged := logged s @
             replicate (length (filter (\<lambda>l. fst l = h) (listeners s))) (InvalidIPCFromWorker raw)\<rparr>)
   \<and> (MasterMessageSchema raw = None \<longrightarrow>
      onMasterMessage isPublic raw w = w\<lparr>wlogged := wlogged w @ [InvalidIPCFromMaster raw]\<rparr>)"
  by (simp add: onWorkerMessage_def onMasterMessage_def deliver_def deliver_invalid_aux)

theorem invalid_payload_dropped_witness:
  "WorkerMessageSchema garbage = None
   \<and> MasterMessageSchema garbage = None
   \<and> onWorkerMessage config2 (Num 0) garbage stale_state
       = stale_state\<lparr>logged := [InvalidIPCFromWorker garbage]\<rparr>
   \<and> deliver config2 0 garbage stale_state
       = stale_state\<lparr>logged := [InvalidIPCFromWorker garbage]\<rparr>
   \<and> onMasterMessage (\<lambda>gi. True) garbage viewer_state
       = viewer_state\<lparr>wlogged := [InvalidIPCFromMaster garbage]\<rparr>"
proof -
  have a: "WorkerMessageSchema garbage = None"
    by (simp add: garbage_def WorkerMessageSchema_def z_array_def)
  have b: "MasterMessageSchema garbage = None"
    by (simp add: garbage_def MasterMessageSchema_def)
  from invalid_payload_dropped
         [of garbage config2 "Num 0" stale_state 0 "\<lambda>gi. True" viewer_state] a b
  show ?thesis
    by (simp add: stale_state_def viewer_state_def)
qed

section \<open>Creating a lobby on command\<close>

text \<open>
  Claim C4. Delivering the same \<open>createGame\<close> message to a worker twice leaves exactly one
  lobby with that \<open>gameID\<close>: the handler first looks the \<open>gameID\<close> up; when a lobby
  exists it logs and changes nothing else, otherwise it creates the lobby, so the second
  delivery only adds a log entry.
\<close>

theorem createGame_twice_one_lobby:
  assumes "MasterMessageSchema raw = Some (MasterCreateGame gid cfg start)"
      and "distinct (map fst (gm w))"
  shows "length (filter (\<lambda>p. fst p = gid)
           (gm (onMasterMessage isPublic raw (onMasterMessage isPublic raw w)))) = 1
       \<and> onMasterMessage isPublic raw (onMasterMessage isPublic raw w)
           = (onMasterMessage isPublic raw w)
               \<lparr>wlogged := wlogged (onMasterMessage isPublic raw w) @ [GameAlreadyExists gid]\<rparr>
       \<and> onMasterMessage isPublic raw w =
           (if gm_game (gm w) gid \<noteq> None
            then w\<lparr>wlogged := wlogged w @ [GameAlreadyExists gid]\<rparr>
            else w\<lparr>wlogged := wlogged w @ [CreatingPublicGame gid],
                   gm := gm w @ [(gid, \<lparr>gi_gameID = gid, gi_clients = Some [],
                                        gi_startsAt = Some start, gi_gameConfig = cfg\<rparr>)]\<rparr>)"
proof (cases "map_of (gm w) gid")
  case None
  with assms show ?thesis
    by (simp add: onMasterMessage_def gm_game_def map_get_def gm_createGame_def
        map_set_absent count_key_absent)
next
  case (Some g)
  with assms show ?thesis
    by (simp add: onMasterMessage_def gm_game_def map_get_def count_key_distinct)
qed

theorem createGame_twice_one_lobby_witness:
  "MasterMessageSchema createGame_g2
     = Some (MasterCreateGame ''g2'' (JObj [(''gameMap'', JStr ''World'')]) 500)
   \<and> distinct (map fst (gm viewer_state))
   \<and> length (filter (\<lambda>p. fst p = ''g2'')
        (gm (onMasterMessage (\<lambda>gi. True) createGame_g2
               (onMasterMessage (\<lambda>gi. True) createGame_g2 viewer_state)))) = 1"
proof -
  have a: "MasterMessageSchema createGame_g2
     = Some (MasterCreateGame ''g2'' (JObj [(''gameMap'', JStr ''World'')]) 500)"
    by (simp add: createGame_g2_def MasterMessageSchema_def z_string_def z_number_def
        GameConfigSchema_def)
  have b: "distinct (map fst (gm viewer_state))"
    by (simp add: viewer_state_def)
  from createGame_twice_one_lobby [OF a b, of "\<lambda>gi. True"] a b show ?thesis
    by blast
qed

section \<open>Relaying the broadcast\<close>

text \<open>
  Claim C8, as amended. On a \<open>lobbiesBroadcast\<close> message the worker sends the
  \<open>PublicGames\<close> value of the message to every viewer socket of its set whose
  \<open>readyState\<close> is \<open>OPEN\<close>, removes the other sockets from the set, and in the same
  handler hands one \<open>lobbyList\<close> message to \<open>process.send\<close>, holding an entry for each of
  its public lobbies at that moment. The games and the log are unchanged.
\<close>

theorem lobbiesBroadcast_forwarded_to_open_viewers:
  assumes "MasterMessageSchema raw = Some (MasterLobbiesBroadcast publicGames)"
  shows "toClients (onMasterMessage isPublic raw w)
           = toClients w @ map (\<lambda>client. (client, publicGames))
                             (filter (\<lambda>client. readyState w client = OPEN) (lobbyClients w))
       \<and> lobbyClients (onMasterMessage isPublic raw w)
           = filter (\<lambda>client. readyState w client = OPEN) (lobbyClients w)
       \<and> toMaster (onMasterMessage isPublic raw w)
           = toMaster w @
             [JObj [(''type'', JStr ''lobbyList''),
                    (''lobbies'', JArr (map lobbyEntry (gm_publicLobbies isPublic (gm w))))]]
       \<and> gm (onMasterMessage isPublic raw w) = gm w
       \<and> wlogged (onMasterMessage isPublic raw w) = wlogged w"
  using assms
  by (simp add: onMasterMessage_def sendMyLobbiesToMaster_def broadcastLobbiesToClients_def
      drop_closed_clients Let_def)

theorem lobbiesBroadcast_forwarded_to_open_viewers_witness:
  "MasterMessageSchema broadcast_g1 = Some (MasterLobbiesBroadcast view_g1)
   \<and> toClients (onMasterMessage (\<lambda>gi. True) broadcast_g1 viewer_state) = [(1, view_g1)]
   \<and> lobbyClients (onMasterMessage (\<lambda>gi. True) broadcast_g1 viewer_state) = [1]
   \<and> toMaster (onMasterMessage (\<lambda>gi. True) broadcast_g1 viewer_state)
       = [JObj [(''type'', JStr ''lobbyList''),
                (''lobbies'', JArr [JObj [(''gameID'', JStr ''g1''), (''numClients'', JNum 2),
                                          (''startsAt'', JNum 100), (''gameConfig'', JNull)]])]]"
proof -
  note a = broadcast_g1_parses
  from lobbiesBroadcast_forwarded_to_open_viewers [OF a, of "\<lambda>gi. True" viewer_state] a
  show ?thesis
    by (simp add: viewer_state_def gm_publicLobbies_def map_values_def lobbyEntry_def)
qed

text \<open>
  A socket of the set that is closing receives nothing: the claim as written, that every
  attached viewer is sent the view, fails on it.
\<close>

theorem closing_viewer_gets_no_broadcast:
  "MasterMessageSchema broadcast_g1 = Some (MasterLobbiesBroadcast view_g1)
   \<and> 2 \<in> set (lobbyClients viewer_state)
   \<and> (2, view_g1) \<notin> set (toClients (onMasterMessage (\<lambda>gi. True) broadcast_g1 viewer_state))
   \<and> 2 \<notin> set (lobbyClients (onMasterMessage (\<lambda>gi. True) broadcast_g1 viewer_state))"
  by (simp add: broadcast_g1_parses onMasterMessage_def sendMyLobbiesToMaster_def
      broadcastLobbiesToClients_def set_delete_def Let_def viewer_state_def)

section \<open>The scheduling tick\<close>

text \<open>
  Claim C2, as amended. A scheduling tick sends no command when the aggregate holds two
  lobbies or more, and at most one \<open>createGame\<close> otherwise: exactly one, to the worker
  registered under \<open>workerIndex gameID\<close>, when the playlist yields a configuration and that
  worker is registered; none when the playlist fails or the worker is not found.
\<close>

theorem scheduling_tick_sends_at_most_one:
  "tickSent s (maybeScheduleLobby c now newID playlist s) =
     (if length (getAllLobbies s) \<ge> 2 then []
      else case playlist of
             Inl e \<Rightarrow> []
           | Inr cfg \<Rightarrow>
               (case map_get (workers s) (workerIndex c newID) of
                  None \<Rightarrow> []
                | Some worker \<Rightarrow>
                    [(worker, MasterCreateGame newID cfg
                       (Max (insert now (startsAt ` set (getAllLobbies s))) + gameCreationRate c))]))
   \<and> length (tickSent s (maybeScheduleLobby c now newID playlist s)) \<le> 1"
  by (simp add: tickSent_def maybeScheduleLobby_def scheduleBegin_def scheduleResume_def
      lastStart_Max Let_def split: sum.splits option.splits)

text \<open>
  With an empty aggregate and the target worker removed, the tick logs and sends nothing:
  the claim as written, that it sends exactly one command, fails.
\<close>

theorem unregistered_target_gets_no_createGame:
  "length (getAllLobbies worker0_gone) < 2
   \<and> workerIndex config2 ''ab'' = Num 0
   \<and> maybeScheduleLobby config2 1000 ''ab'' (Inr JNull) worker0_gone
       = Inr (worker0_gone\<lparr>logged := logged worker0_gone @ [WorkerNotFound (Num 0)]\<rparr>)
   \<and> tickSent worker0_gone (maybeScheduleLobby config2 1000 ''ab'' (Inr JNull) worker0_gone) = []"
  by (simp add: tickSent_def maybeScheduleLobby_def scheduleBegin_def scheduleResume_def
      worker0_gone_def registerWorker_def removeWorker_def new_master_def getAllLobbies_def
      map_values_def map_delete_def map_get_def config2_def set_delete_def)

theorem scheduling_tick_sends_at_most_one_witness:
  "tickSent worker0_gone (maybeScheduleLobby config2 1000 ''abc'' (Inr JNull) worker0_gone)
     = [(1, MasterCreateGame ''abc'' JNull 61000)]"
  using scheduling_tick_sends_at_most_one [of worker0_gone config2 1000 "''abc''" "Inr JNull"]
  by (simp add: worker0_gone_def registerWorker_def removeWorker_def new_master_def getAllLobbies_def
      map_values_def map_delete_def map_get_def config2_def set_delete_def)

text \<open>
  Claim C6. When a scheduling tick sends a \<open>createGame\<close>, its \<open>startsAt\<close> is the maximum of
  the current time and the \<open>startsAt\<close> of every lobby of the aggregate, plus
  \<open>gameCreationRate\<close>; its \<open>gameID\<close> is the identifier generated in this tick; and it is
  the only message sent, to the worker registered under \<open>workerIndex gameID\<close>. The second
  part is the same for a tick during which the state changed from \<open>s\<close> to \<open>s1\<close> while it
  awaited the playlist: the aggregate is that of \<open>s\<close>, the worker is looked up in \<open>s1\<close>.
\<close>

theorem created_lobby_start_and_owner:
  "(maybeScheduleLobby c now newID playlist s = Inr s' \<and> sent s' \<noteq> sent s \<longrightarrow>
      (\<exists>worker cfg. playlist = Inr cfg
         \<and> map_get (workers s) (workerIndex c newID) = Some worker
         \<and> sent s' = sent s @
             [(worker, MasterCreateGame newID cfg
                (Max (insert now (startsAt ` set (getAllLobbies s))) + gameCreationRate c))]))
   \<and> (scheduleBegin c now newID s = Some p \<and> scheduleResume c p playlist s1 = Inr s2
        \<and> sent s2 \<noteq> sent s1 \<longrightarrow>
      (\<exists>worker cfg. playlist = Inr cfg
         \<and> map_get (workers s1) (workerIndex c newID) = Some worker
         \<and> sent s2 = sent s1 @
             [(worker, MasterCreateGame newID cfg
                (Max (insert now (startsAt ` set (getAllLobbies s))) + gameCreationRate c))]))"
  by (auto simp: maybeScheduleLobby_def scheduleBegin_def scheduleResume_def
      lastStart_Max Let_def split: sum.splits option.splits if_splits)

theorem created_lobby_start_and_owner_witness:
  "maybeScheduleLobby config2 50 ''ab'' (Inr JNull) stale_state
     = Inr (stale_state\<lparr>sent := [(0, MasterCreateGame ''ab'' JNull 60100)],
                        logged := [ScheduledPublicGame ''ab'' (Num 0)]\<rparr>)
   \<and> scheduleBegin config2 50 ''ab'' stale_state
       = Some \<lparr>plan_gameID = ''ab'', plan_workerId = Num 0, plan_lastStart = 100\<rparr>
   \<and> sent stale_state = []
   \<and> map_get (workers stale_state) (workerIndex config2 ''ab'') = Some 0
   \<and> Max (insert 50 (startsAt ` set (getAllLobbies stale_state))) + gameCreationRate config2
       = 60100"
proof -
  have a: "maybeScheduleLobby config2 50 ''ab'' (Inr JNull) stale_state
     = Inr (stale_state\<lparr>sent := [(0, MasterCreateGame ''ab'' JNull 60100)],
                        logged := [ScheduledPublicGame ''ab'' (Num 0)]\<rparr>)"
    by (simp add: maybeScheduleLobby_def scheduleBegin_def scheduleResume_def stale_state_def
        getAllLobbies_def map_values_def map_get_def config2_def)
  have b: "scheduleBegin config2 50 ''ab'' stale_state
       = Some \<lparr>plan_gameID = ''ab'', plan_workerId = Num 0, plan_lastStart = 100\<rparr>"
    by (simp add: scheduleBegin_def stale_state_def getAllLobbies_def map_values_def config2_def)
  have c: "sent stale_state = []"
    by (simp add: stale_state_def)
  from created_lobby_start_and_owner
         [of config2 50 "''ab''" "Inr JNull" stale_state
             "stale_state\<lparr>sent := [(0, MasterCreateGame ''ab'' JNull 60100)],
                          logged := [ScheduledPublicGame ''ab'' (Num 0)]\<rparr>"] a b c
  show ?thesis
    by auto
qed

section \<open>Restarting a worker\<close>

text \<open>
  Claim C9 says that on every worker exit the supervisor deregisters the worker, logs the
  exit code and signal, and forks a replacement with the same \<open>WORKER_ID\<close>,
  \<open>ADMIN_TOKEN\<close> and \<open>INSTANCE_ID\<close>, registered under the same identity. The exit
  handler does none of it: it finds no \<open>WORKER_ID\<close> on the worker that exited, logs that
  it could not find the id, and returns. After the exit of worker 0 of two, the dead
  handle is still registered under identity 0, its lobby list and readiness are kept, and
  \<open>cluster.fork\<close> has been called for the two initial workers only.
\<close>

theorem exit_restarts_nothing:
  "onExit parseInt tok inst worker code signal sv = mlog CrashedNoId sv
   \<and> forked (onExit parseInt tok inst worker code signal sv) = forked sv
   \<and> workers (service (onExit parseInt tok inst worker code signal sv)) = workers (service sv)
   \<and> workerLobbies (service (onExit parseInt tok inst worker code signal sv))
       = workerLobbies (service sv)
   \<and> readyWorkers (service (onExit parseInt tok inst worker code signal sv))
       = readyWorkers (service sv)
   \<and> forked (onExit parseInt ''tok'' ''DEV_ID'' 0 (Some 1) None
               (startMaster config2 ''tok'' ''DEV_ID''))
       = [(0, \<lparr>WORKER_ID = EnvNumber 0, ADMIN_TOKEN = ''tok'', INSTANCE_ID = ''DEV_ID''\<rparr>),
          (1, \<lparr>WORKER_ID = EnvNumber 1, ADMIN_TOKEN = ''tok'', INSTANCE_ID = ''DEV_ID''\<rparr>)]
   \<and> workers (service (onExit parseInt ''tok'' ''DEV_ID'' 0 (Some 1) None
                          (startMaster config2 ''tok'' ''DEV_ID'')))
       = [(Num 0, 0), (Num 1, 1)]
   \<and> logged (service (onExit parseInt ''tok'' ''DEV_ID'' 0 (Some 1) None
                         (startMaster config2 ''tok'' ''DEV_ID'')))
       = [StartedWorker 0 0, StartedWorker 1 1, CrashedNoId]"
proof -
  have a: "onExit parseInt tok' inst' worker' code' signal' sv' = mlog CrashedNoId sv'"
    for tok' inst' worker' code' signal' sv'
    by (simp add: onExit_def envWorkerId_def processEnv_def)
  have b: "startMaster config2 ''tok'' ''DEV_ID'' =
     \<lparr>service = new_master
           \<lparr>workers := [(Num 0, 0), (Num 1, 1)],
            listeners := [(0, Num 0), (1, Num 1)],
            logged := [StartedWorker 0 0, StartedWorker 1 1]\<rparr>,
        forked = [(0, \<lparr>WORKER_ID = EnvNumber 0, ADMIN_TOKEN = ''tok'', INSTANCE_ID = ''DEV_ID''\<rparr>),
                  (1, \<lparr>WORKER_ID = EnvNumber 1, ADMIN_TOKEN = ''tok'', INSTANCE_ID = ''DEV_ID''\<rparr>)],
        nextHandle = 2\<rparr>"
    by (simp add: startMaster_def config2_def fork_loop)
       (simp add: upt_rec [of 0 2] upt_rec [of "Suc 0" 2])
  show ?thesis
    unfolding a b by (simp add: mlog_def new_master_def)
qed

section \<open>The aggregate\<close>

text \<open>
  Claim C1, as amended. Take any run of registrations, removals, messages and ticks from
  the initial state in which every message arrives on a handle that is the current handle
  of each identity it was registered under. The lobby list computed on a broadcast tick is
  then sorted ascending by \<open>startsAt\<close> and holds exactly the lobbies of the latest report
  of each registered identity, a report made before the identity's last removal not
  counting; an identity that is not registered has no entry in \<open>workerLobbies\<close>. The tick
  sends this list, with the current time, to every registered worker.
\<close>

theorem aggregate_is_sorted_latest_reports:
  assumes "fromRegistered (rev evs)"
  shows "sorted (map startsAt (getAllLobbies (run c evs new_master)))
       \<and> mset (getAllLobbies (run c evs new_master)) = mset (expectedGames evs)
       \<and> (\<forall>k. currentHandle (rev evs) k = None \<longrightarrow>
              map_get (workerLobbies (run c evs new_master)) k = None)
       \<and> sent (broadcastLobbies now (run c evs new_master))
           = sent (run c evs new_master) @
             map (\<lambda>worker. (worker, MasterLobbiesBroadcast
                    \<lparr>serverTime = now, games = getAllLobbies (run c evs new_master)\<rparr>))
                 (map_values (workers (run c evs new_master)))"
proof -
  let ?s = "run c evs new_master"
  let ?wl = "workerLobbies ?s"
  have lobbies: "map_of ?wl k = latestReport (rev evs) k" for k
    using run_workerLobbies [of c evs k] by (simp add: map_get_def)
  have gone: "currentHandle (rev evs) k = None \<Longrightarrow> map_of ?wl k = None" for k
    using report_needs_handle [OF assms, of k] lobbies [of k]
    by (cases "latestReport (rev evs) k") simp_all
  have keys: "fst ` set ?wl \<subseteq> set (identities evs)"
  proof
    fix k assume "k \<in> fst ` set ?wl"
    then have "map_of ?wl k \<noteq> None"
      by (simp add: map_of_eq_None_iff)
    with gone [of k] obtain h where "currentHandle (rev evs) k = Some h"
      by (cases "currentHandle (rev evs) k") auto
    then have "Register k h \<in> set evs"
      using currentHandle_Register [of "rev evs" k h] by simp
    then show "k \<in> set (identities evs)"
      by (auto simp: set_identities)
  qed
  have same: "(case map_of ?wl k of None \<Rightarrow> [] | Some v \<Rightarrow> v)
      = (if currentHandle (rev evs) k \<noteq> None
         then (case latestReport (rev evs) k of Some lobbies \<Rightarrow> lobbies | None \<Rightarrow> [])
         else [])" for k
    using gone [of k] lobbies [of k] by (auto split: option.splits)
  have "mset (getAllLobbies ?s) = (\<Sum>p\<leftarrow>?wl. mset (snd p))"
    by (simp add: getAllLobbies_def map_values_def mset_concat comp_def)
  also have "\<dots> = (\<Sum>k\<leftarrow>identities evs. mset (case map_of ?wl k of None \<Rightarrow> [] | Some v \<Rightarrow> v))"
  proof -
    have "distinct (identities evs)"
      by (simp add: identities_def)
    with sum_values_by_key [OF run_workerLobbies_distinct _ keys] show ?thesis
      by simp
  qed
  also have "\<dots> = mset (expectedGames evs)"
    by (simp add: expectedGames_def mset_concat comp_def same)
  finally have perm: "mset (getAllLobbies ?s) = mset (expectedGames evs)" .
  have "sorted (map startsAt (getAllLobbies ?s))"
    by (simp add: getAllLobbies_def)
  moreover have "\<forall>k. currentHandle (rev evs) k = None \<longrightarrow> map_get ?wl k = None"
    using gone by (simp add: map_get_def)
  moreover have "sent (broadcastLobbies now ?s)
           = sent ?s @ map (\<lambda>worker. (worker, MasterLobbiesBroadcast
                    \<lparr>serverTime = now, games = getAllLobbies ?s\<rparr>)) (map_values (workers ?s))"
    by (simp add: broadcastLobbies_def)
  ultimately show ?thesis
    using perm by blast
qed

theorem aggregate_is_sorted_latest_reports_witness:
  "fromRegistered (rev restart_trace)
   \<and> currentHandle (rev restart_trace) (Num 0) = Some 0
   \<and> currentHandle (rev restart_trace) (Num 1) = Some 2
   \<and> expectedGames restart_trace = [lobby ''a2'' 300, lobby ''a1'' 100]
   \<and> getAllLobbies (run config2 restart_trace new_master) = [lobby ''a1'' 100, lobby ''a2'' 300]
   \<and> sorted (map startsAt (getAllLobbies (run config2 restart_trace new_master)))
   \<and> mset (getAllLobbies (run config2 restart_trace new_master))
       = mset (expectedGames restart_trace)"
proof -
  have "currentHandle (rev restart_trace) (Num 0) = Some 0"
       "currentHandle (rev restart_trace) (Num 1) = Some 2"
    by (simp_all add: restart_trace_def)
  moreover have "getAllLobbies (run config2 restart_trace new_master)
                   = [lobby ''a1'' 100, lobby ''a2'' 300]"
    by (simp add: restart_run getAllLobbies_def map_values_def lobby_def)
  ultimately show ?thesis
    using aggregate_is_sorted_latest_reports [OF restart_fromRegistered, of config2 0]
      restart_fromRegistered restart_expected
    by blast
qed

text \<open>
  Without the condition the claim fails: the listener stays attached to the handle of a
  removed worker, and a \<open>lobbyList\<close> that arrives on it afterwards is stored and
  aggregated although the worker is not registered.
\<close>

theorem removed_worker_report_is_aggregated:
  "currentHandle (rev late_report_trace) (Num 0) = None
   \<and> getAllLobbies (run config2 late_report_trace new_master) = [lobby ''a2'' 300]
   \<and> expectedGames late_report_trace = []"
  by (simp add: late_report_run getAllLobbies_def map_values_def)
     (simp add: late_report_trace_def expectedGames_def identities_def)

section \<open>The readiness gate\<close>

text \<open>
  Claim C3, as amended. In every run from the initial state, \<open>startPolling\<close> has been
  called either not at all or once for each of the two loops, the latter exactly when the
  start flag is set; later ready signals, duplicate or not, start nothing more. The loops
  have not started unless ready signals with \<open>numWorkers\<close> distinct identities have
  arrived; when the signals carry identities of configured workers only, a signal of
  every identity below \<open>numWorkers\<close> has arrived. When there is at least one worker, the
  loops have started as soon as \<open>numWorkers\<close> identities have signalled ready and not
  been removed since; in a run without removals, as soon as \<open>numWorkers\<close> distinct ready
  signals have arrived.
\<close>

theorem loops_start_once_when_all_ready:
  "polling (run c evs new_master)
     = (if started (run c evs new_master)
        then [(BroadcastLobbies, 250), (MaybeScheduleLobby, 1000)] else [])
   \<and> (started (run c evs new_master)
      \<longrightarrow> numWorkers c \<le> card (set (readySignals (rev evs))))
   \<and> (started (run c evs new_master)
        \<and> (\<forall>w \<in> set (readySignals (rev evs)). \<exists>i < numWorkers c. w = Num (int i))
      \<longrightarrow> (\<forall>i < numWorkers c. Num (int i) \<in> set (readySignals (rev evs))))
   \<and> (0 < numWorkers c \<and> numWorkers c \<le> card (set (readyNow (rev evs)))
      \<longrightarrow> started (run c evs new_master))
   \<and> (0 < numWorkers c \<and> (\<forall>k. Remove k \<notin> set evs)
        \<and> numWorkers c \<le> card (set (readySignals (rev evs)))
      \<longrightarrow> started (run c evs new_master))"
proof -
  let ?s = "run c evs new_master"
  let ?S = "set (readySignals (rev evs))"
  let ?N = "numWorkers c"
  let ?R = "(\<lambda>i. Num (int i)) ` {..<?N}"
  note inv = gate_run [of c evs]
  have a: "polling ?s = (if started ?s then [(BroadcastLobbies, 250), (MaybeScheduleLobby, 1000)]
                         else [])"
    using inv by (simp add: gate_inv_def)
  have a': "?N \<le> card ?S" if "started ?s"
    using inv that by (simp add: gate_inv_def)
  have b: "\<forall>i < ?N. Num (int i) \<in> ?S"
    if st: "started ?s" and rng: "\<forall>w \<in> ?S. \<exists>i < ?N. w = Num (int i)"
  proof -
    have "inj_on (\<lambda>i. Num (int i)) {..<?N}"
      by (simp add: inj_on_def)
    then have cardR: "card ?R = ?N"
      by (simp add: card_image)
    have sub: "?S \<subseteq> ?R"
      using rng by auto
    from a' st cardR have "card ?R \<le> card ?S" by simp
    with sub have "?S = ?R"
      by (intro card_seteq) simp_all
    then show ?thesis by auto
  qed
  have d: "distinct (readyWorkers ?s)"
    using inv by (simp add: gate_inv_def)
  have now: "started ?s" if "0 < ?N" and "?N \<le> card (set (readyNow (rev evs)))"
  proof -
    from live_run [of c evs]
    have eq: "set (readyWorkers ?s) = set (readyNow (rev evs))"
      and alt: "started ?s \<or> length (readyWorkers ?s) < ?N \<or> ?N = 0"
      by (simp_all add: live_inv_def)
    from d eq have "length (readyWorkers ?s) = card (set (readyNow (rev evs)))"
      by (metis distinct_card)
    with alt that show ?thesis by simp
  qed
  have c: "started ?s"
    if "0 < ?N" and "\<forall>k. Remove k \<notin> set evs" and "?N \<le> card ?S"
  proof -
    from inv that(2) have eq: "set (readyWorkers ?s) = ?S"
      and iff: "started ?s \<longleftrightarrow> 0 < ?N \<and> ?N \<le> length (readyWorkers ?s)"
      by (simp_all add: gate_inv_def)
    from d eq have "length (readyWorkers ?s) = card ?S"
      by (metis distinct_card)
    with iff that show ?thesis by simp
  qed
  show ?thesis
  proof (intro conjI impI)
    show "polling ?s = (if started ?s then [(BroadcastLobbies, 250), (MaybeScheduleLobby, 1000)]
                         else [])"
      by (rule a)
  next
    assume "started ?s"
    then show "?N \<le> card ?S" by (rule a')
  next
    assume "started ?s \<and> (\<forall>w \<in> ?S. \<exists>i < ?N. w = Num (int i))"
    then show "\<forall>i < ?N. Num (int i) \<in> ?S"
      using b by simp
  next
    assume "0 < ?N \<and> ?N \<le> card (set (readyNow (rev evs)))"
    then show "started ?s"
      using now by simp
  next
    assume "0 < ?N \<and> (\<forall>k. Remove k \<notin> set evs) \<and> ?N \<le> card ?S"
    then show "started ?s"
      using c by simp
  qed
qed

theorem loops_start_once_when_all_ready_witness:
  "readySignals (rev startup_trace) = [Num 1, Num 1, Num 0]
   \<and> numWorkers config2 = 2
   \<and> card (set (readySignals (rev startup_trace))) = 2
   \<and> started (run config2 startup_trace new_master)
   \<and> polling (run config2 startup_trace new_master)
       = [(BroadcastLobbies, 250), (MaybeScheduleLobby, 1000)]
   \<and> Num (int 0) \<in> set (readySignals (rev startup_trace))
   \<and> Num (int 1) \<in> set (readySignals (rev startup_trace))
   \<and> Remove (Num 1) \<in> set restart_trace
   \<and> readyNow (rev restart_trace) = [Num 1, Num 0]
   \<and> started (run config2 restart_trace new_master)"
proof -
  have rng: "\<forall>w \<in> set (readySignals (rev startup_trace)). \<exists>i < numWorkers config2. w = Num (int i)"
  proof
    fix w assume "w \<in> set (readySignals (rev startup_trace))"
    then have "w = Num (int 0) \<or> w = Num (int 1)"
      by (auto simp: startup_signals)
    then show "\<exists>i < numWorkers config2. w = Num (int i)"
      by (auto simp: config2_def)
  qed
  have norem: "\<forall>k. Remove k \<notin> set startup_trace"
    by (simp add: startup_trace_def)
  have n: "0 < numWorkers config2" "numWorkers config2 \<le> card (set (readySignals (rev startup_trace)))"
    by (simp_all add: config2_def startup_signals)
  have two: "numWorkers config2 = 2" "card (set (readySignals (rev startup_trace))) = 2"
    by (simp_all add: config2_def startup_signals)
  have now: "readyNow (rev restart_trace) = [Num 1, Num 0]"
    by (simp add: restart_trace_def parse_examples handleOf_def)
  have rem: "Remove (Num 1) \<in> set restart_trace"
    by (simp add: restart_trace_def)
  have n': "numWorkers config2 \<le> card (set (readyNow (rev restart_trace)))"
    by (simp add: now config2_def)
  from loops_start_once_when_all_ready [of config2 startup_trace] rng norem n
  have "started (run config2 startup_trace new_master)"
    and "polling (run config2 startup_trace new_master)
           = (if started (run config2 startup_trace new_master)
              then [(BroadcastLobbies, 250), (MaybeScheduleLobby, 1000)] else [])"
    and "\<forall>i < numWorkers config2. Num (int i) \<in> set (readySignals (rev startup_trace))"
    by blast+
  moreover from loops_start_once_when_all_ready [of config2 restart_trace] n(1) n'
  have "started (run config2 restart_trace new_master)"
    by blast
  ultimately show ?thesis
    using two startup_signals now rem by simp
qed

text \<open>
  Claim C3 as written fails in three ways. Worker 0 signals ready, exits and is
  restarted, then worker 1 signals ready: \<open>removeWorker\<close> took worker 0 out of the ready
  set, so two distinct ready signals have arrived, one of each configured worker, and the
  loops have not started. A ready signal that carries the identity 7, which no configured
  worker has, counts as the second of two: the loops start and worker 1 has not
  signalled. With \<open>numWorkers\<close> 0 the loops are not started, at the first signal or ever.
\<close>

theorem ready_signals_without_start:
  "readySignals (rev crash_trace) = [Num 1, Num 0]
   \<and> numWorkers config2 = 2
   \<and> \<not> started (run config2 crash_trace new_master)
   \<and> polling (run config2 crash_trace new_master) = []
   \<and> readySignals (rev foreign_id_trace) = [Num 7, Num 0]
   \<and> started (run config2 foreign_id_trace new_master)
   \<and> numWorkers config0 = 0
   \<and> readySignals (rev [Register (Num 0) 0, Message 0 (readyMessage 0)]) = [Num 0]
   \<and> \<not> started (run config0 [Register (Num 0) 0, Message 0 (readyMessage 0)] new_master)"
proof -
  have "readySignals (rev crash_trace) = [Num 1, Num 0]"
    by (simp add: crash_trace_def parse_examples handleOf_def)
  moreover have "readySignals (rev foreign_id_trace) = [Num 7, Num 0]"
    by (simp add: foreign_id_trace_def parse_examples handleOf_def)
  moreover have "readySignals (rev [Register (Num 0) 0, Message 0 (readyMessage 0)]) = [Num 0]"
    by (simp add: parse_examples handleOf_def)
  moreover have "\<not> started (run config0 [Register (Num 0) 0, Message 0 (readyMessage 0)] new_master)"
    by (simp add: run_def step_def registerWorker_def deliver_def onWorkerMessage_def
        handleWorkerReady_def parse_examples new_master_def set_add_def config0_def Let_def)
  moreover have "numWorkers config2 = 2" "numWorkers config0 = 0"
    by (simp_all add: config2_def config0_def)
  ultimately show ?thesis
    unfolding crash_run foreign_id_run by simp
qed


section \<open>Crash recovery\<close>

text \<open>
  Claim C7, as amended. After \<open>removeWorker k\<close> and \<open>registerWorker k h'\<close> the lobby list
  of \<open>k\<close> is gone and the aggregate is built from the lists of the other identities
  alone. As long as \<open>k\<close> is not registered again and no message arrives on an older
  handle of \<open>k\<close>, a lobby list that the coordinator holds for \<open>k\<close> was reported on \<open>h'\<close>
  after the registration. As long as \<open>k\<close> is neither registered again nor removed, \<open>k\<close>
  stays registered with \<open>h'\<close>, and a scheduling tick whose identifier is assigned to \<open>k\<close>
  sends its \<open>createGame\<close> to \<open>h'\<close> and to no other handle.
\<close>

theorem reregistered_worker_gets_commands:
  "map_get (workerLobbies (registerWorker k h' (removeWorker k s))) k = None
   \<and> getAllLobbies (registerWorker k h' (removeWorker k s))
       = sort_key startsAt (concat (map_values (map_delete k (workerLobbies s))))
   \<and> ((\<forall>h. Register k h \<notin> set evs)
        \<and> (\<forall>h raw. Message h raw \<in> set evs \<and> (h, k) \<in> set (listeners s) \<longrightarrow> h = h')
        \<and> map_get (workerLobbies (run c evs (registerWorker k h' (removeWorker k s)))) k
            = Some lobbies
      \<longrightarrow> (\<exists>raw. Message h' raw \<in> set evs
                 \<and> WorkerMessageSchema raw = Some (WorkerLobbyList lobbies)))
   \<and> ((\<forall>h. Register k h \<notin> set evs) \<and> Remove k \<notin> set evs \<longrightarrow>
        map_get (workers (run c evs (registerWorker k h' (removeWorker k s)))) k = Some h'
        \<and> (workerIndex c newID = k
             \<and> maybeScheduleLobby c now newID playlist
                 (run c evs (registerWorker k h' (removeWorker k s))) = Inr s2
             \<and> sent s2 \<noteq> sent (run c evs (registerWorker k h' (removeWorker k s)))
           \<longrightarrow> (\<exists>cfg start.
                  sent s2 = sent (run c evs (registerWorker k h' (removeWorker k s)))
                            @ [(h', MasterCreateGame newID cfg start)])))"
proof -
  let ?s1 = "registerWorker k h' (removeWorker k s)"
  have a: "map_get (workerLobbies ?s1) k = None"
    by (simp add: registerWorker_def removeWorker_def map_get_map_delete)
  have b: "getAllLobbies ?s1 = sort_key startsAt (concat (map_values (map_delete k (workerLobbies s))))"
    by (simp add: getAllLobbies_def registerWorker_def removeWorker_def)
  have ls: "listeners ?s1 = listeners s @ [(h', k)]"
    by (simp add: registerWorker_def removeWorker_def)
  have fresh: "\<exists>raw. Message h' raw \<in> set evs \<and> WorkerMessageSchema raw = Some (WorkerLobbyList lobbies)"
    if noreg: "\<forall>h. Register k h \<notin> set evs"
      and old: "\<forall>h raw. Message h raw \<in> set evs \<and> (h, k) \<in> set (listeners s) \<longrightarrow> h = h'"
      and entry: "map_get (workerLobbies (run c evs ?s1)) k = Some lobbies"
  proof -
    from run_reports_on [OF noreg a, of c] entry
    obtain h raw where m: "Message h raw \<in> set evs" and l: "(h, k) \<in> set (listeners ?s1)"
      and p: "WorkerMessageSchema raw = Some (WorkerLobbyList lobbies)"
      by blast
    from l old m have "h = h'"
      by (auto simp: ls)
    with m p show ?thesis by auto
  qed
  have c: "map_get (workers (run c evs ?s1)) k = Some h'"
    if "\<forall>h. Register k h \<notin> set evs" and "Remove k \<notin> set evs"
    using run_keeps_handle [OF that, of c ?s1]
    by (simp add: registerWorker_def map_get_map_set)
  have d: "\<exists>cfg start. sent s2 = sent (run c evs ?s1) @ [(h', MasterCreateGame newID cfg start)]"
    if w: "map_get (workers (run c evs ?s1)) k = Some h'" and "workerIndex c newID = k"
      and "maybeScheduleLobby c now newID playlist (run c evs ?s1) = Inr s2"
      and "sent s2 \<noteq> sent (run c evs ?s1)"
    using that
    by (auto simp: maybeScheduleLobby_def scheduleBegin_def scheduleResume_def Let_def
        split: option.splits sum.splits if_splits)
  show ?thesis
    using a b c d fresh by blast
qed

theorem reregistered_worker_gets_commands_witness:
  "workerIndex config2 ''abc'' = Num 1
   \<and> getAllLobbies two_workers = [lobby ''a1'' 100, lobby ''b1'' 200, lobby ''a2'' 300]
   \<and> getAllLobbies (registerWorker (Num 1) 2 (removeWorker (Num 1) two_workers))
       = [lobby ''a1'' 100, lobby ''a2'' 300]
   \<and> map_get (workerLobbies
        (run config2 [Message 0 (lobbyListMessage []),
                      Message 2 (lobbyListMessage [lobbyJson ''n1'' 500])]
           (registerWorker (Num 1) 2 (removeWorker (Num 1) two_workers)))) (Num 1)
       = Some [lobby ''n1'' 500]
   \<and> (\<exists>raw. Message 2 raw \<in> set [Message 0 (lobbyListMessage []),
                                   Message 2 (lobbyListMessage [lobbyJson ''n1'' 500])]
            \<and> WorkerMessageSchema raw = Some (WorkerLobbyList [lobby ''n1'' 500]))
   \<and> map_get (workers
        (run config2 [Message 0 (lobbyListMessage []),
                      Message 2 (lobbyListMessage [lobbyJson ''n1'' 500])]
           (registerWorker (Num 1) 2 (removeWorker (Num 1) two_workers)))) (Num 1) = Some 2
   \<and> maybeScheduleLobby config2 50 ''abc'' (Inr JNull)
        (run config2 [Message 0 (lobbyListMessage []),
                      Message 2 (lobbyListMessage [lobbyJson ''n1'' 500])]
           (registerWorker (Num 1) 2 (removeWorker (Num 1) two_workers)))
       = Inr \<lparr>workers = [(Num 0, 0), (Num 1, 2)],
               workerLobbies = [(Num 0, []), (Num 1, [lobby ''n1'' 500])],
               readyWorkers = [Num 0], started = True,
               listeners = [(0, Num 0), (1, Num 1), (2, Num 1)],
               sent = [(2, MasterCreateGame ''abc'' JNull 60500)],
               logged = [ScheduledPublicGame ''abc'' (Num 1)],
               polling = [(BroadcastLobbies, 250), (MaybeScheduleLobby, 1000)]\<rparr>"
proof -
  let ?evs = "[Message 0 (lobbyListMessage []),
               Message 2 (lobbyListMessage [lobbyJson ''n1'' 500])]"
  let ?s1 = "registerWorker (Num 1) 2 (removeWorker (Num 1) two_workers)"
  let ?s2 = "\<lparr>workers = [(Num 0, 0), (Num 1, 2)],
               workerLobbies = [(Num 0, []), (Num 1, [lobby ''n1'' 500])],
               readyWorkers = [Num 0], started = True,
               listeners = [(0, Num 0), (1, Num 1), (2, Num 1)],
               sent = [(2, MasterCreateGame ''abc'' JNull 60500)],
               logged = [ScheduledPublicGame ''abc'' (Num 1)],
               polling = [(BroadcastLobbies, 250), (MaybeScheduleLobby, 1000)]\<rparr>"
  have a: "\<forall>h. Register (Num 1) h \<notin> set ?evs" "Remove (Num 1) \<notin> set ?evs"
          "\<forall>h raw. Message h raw \<in> set ?evs \<and> (h, Num 1) \<in> set (listeners two_workers) \<longrightarrow> h = 2"
    by (auto simp: two_workers_def)
  have b: "workerIndex config2 ''abc'' = Num 1"
    by (simp add: config2_def)
  have c: "maybeScheduleLobby config2 50 ''abc'' (Inr JNull) (run config2 ?evs ?s1) = Inr ?s2"
    unfolding reregistered_run
    by (simp add: maybeScheduleLobby_def scheduleBegin_def scheduleResume_def
        getAllLobbies_def map_values_def map_get_def config2_def lobby_def)
  have d: "getAllLobbies two_workers = [lobby ''a1'' 100, lobby ''b1'' 200, lobby ''a2'' 300]"
    by (simp add: two_workers_def getAllLobbies_def map_values_def lobby_def)
  have e: "getAllLobbies ?s1 = [lobby ''a1'' 100, lobby ''a2'' 300]"
    by (simp add: two_workers_def getAllLobbies_def map_values_def lobby_def
        registerWorker_def removeWorker_def map_delete_def)
  have f: "map_get (workerLobbies (run config2 ?evs ?s1)) (Num 1) = Some [lobby ''n1'' 500]"
    by (simp add: reregistered_run map_get_def)
  have h: "sent ?s2 \<noteq> sent (run config2 ?evs ?s1)"
    by (simp add: reregistered_run)
  from reregistered_worker_gets_commands
         [of "Num 1" 2 two_workers ?evs config2 "[lobby ''n1'' 500]" "''abc''" 50 "Inr JNull" ?s2]
       a b c f h
  have "\<exists>raw. Message 2 raw \<in> set ?evs
              \<and> WorkerMessageSchema raw = Some (WorkerLobbyList [lobby ''n1'' 500])"
    and "map_get (workers (run config2 ?evs ?s1)) (Num 1) = Some 2"
    and "\<exists>cfg start. sent ?s2 = sent (run config2 ?evs ?s1) @ [(2, MasterCreateGame ''abc'' cfg start)]"
    by blast+
  with b c d e f show ?thesis
    by blast
qed


text \<open>
  Claim C7 as written fails for the aggregate: the listener that \<open>registerWorker\<close>
  attached to the old handle outlives \<open>removeWorker\<close>. Worker 1 has reported the lobby
  \<open>b1\<close>; it is removed and registered again with handle 2, and the aggregate is without
  \<open>b1\<close>. A report that then arrives on handle 1 is stored under identity 1: the next
  aggregate holds \<open>b1\<close> again, while identity 1 is registered with handle 2.
\<close>

theorem late_report_restores_old_lobbies:
  "map_get (workerLobbies two_workers) (Num 1) = Some [lobby ''b1'' 200]
   \<and> getAllLobbies (registerWorker (Num 1) 2 (removeWorker (Num 1) two_workers))
       = [lobby ''a1'' 100, lobby ''a2'' 300]
   \<and> map_get (workers (run config2 [Message 1 (lobbyListMessage [lobbyJson ''b1'' 200])]
         (registerWorker (Num 1) 2 (removeWorker (Num 1) two_workers)))) (Num 1) = Some 2
   \<and> getAllLobbies (run config2 [Message 1 (lobbyListMessage [lobbyJson ''b1'' 200])]
         (registerWorker (Num 1) 2 (removeWorker (Num 1) two_workers)))
       = [lobby ''a1'' 100, lobby ''b1'' 200, lobby ''a2'' 300]"
proof -
  have "map_get (workerLobbies two_workers) (Num 1) = Some [lobby ''b1'' 200]"
    by (simp add: two_workers_def map_get_def)
  moreover have "getAllLobbies (registerWorker (Num 1) 2 (removeWorker (Num 1) two_workers))
       = [lobby ''a1'' 100, lobby ''a2'' 300]"
    by (simp add: two_workers_def getAllLobbies_def map_values_def lobby_def
        registerWorker_def removeWorker_def map_delete_def)
  ultimately show ?thesis
    unfolding late_old_handle_run
    by (simp add: getAllLobbies_def map_values_def map_get_def lobby_def)
qed

end
